theory Spec2Isabelle
  imports Complex_Main
begin

section \<open>Data model of \<open>line_counter_mod.py\<close>\<close>

text \<open>
  The exceptions the code of \<open>LineCounter\<close> can raise: \<open>IndexError\<close> from indexing a list
  out of range, \<open>KeyError\<close> from subscripting a dict with a missing key. The source defines no
  exception class of its own and has no \<open>raise\<close> statement and no \<open>try\<close>.
\<close>

datatype error = IndexError | KeyError

text \<open>
  \<open>Point\<close> and \<open>Vector\<close> are the dataclasses of \<open>supervision.geometry.dataclasses\<close>.
  Coordinates are Python floats; they are idealised as reals. No statement below depends on
  the arithmetic: the side test is only ever compared with the side recorded before.
\<close>

datatype Point = Point (point_x: real) (point_y: real)

datatype Vector = Vector (start_of: Point) (end_of: Point)

text \<open>
  A detection is the tuple \<open>(xyxy, confidence, class_id, tracker_id)\<close> that iterating over
  \<open>Detections\<close> yields; \<open>tracker_id\<close> may be \<open>None\<close>.
\<close>

type_synonym xyxy = "real \<times> real \<times> real \<times> real"
type_synonym detection = "xyxy \<times> real \<times> int \<times> int option"

text \<open>
  Dictionaries are mutable objects. The constructor creates some of them with \<open>.copy()\<close>
  and stores them in lists, so they are modelled as references (indices) into two stores, one
  of side maps (\<open>tracker id \<rightharpoonup> bool\<close>) and one of count dictionaries
  (\<open>class name \<rightharpoonup> int\<close>). A new object is appended to its store; its address is its index.
  \<open>tracker_line\<close> and \<open>class_name_dict\<close> are each referenced from one attribute only and
  are kept by value; the lists inside \<open>tracker_line\<close> are fresh list literals.
\<close>

type_synonym addr = nat

record LineCounter =
  vector_batch :: "Vector list"
  start_points :: "Point list"
  end_points :: "Point list"
  tracker_state :: addr
  tracker_line :: "int \<rightharpoonup> int list"
  in_count_dict :: addr
  out_count_dict :: addr
  in_count_dict_batch :: "addr list"
  out_count_dict_batch :: "addr list"
  tracker_state_batch :: "addr list"
  in_count :: int
  out_count :: int
  class_id :: "int list"
  class_name_dict :: "int \<rightharpoonup> string"
  state_dicts :: "(int \<rightharpoonup> bool) list"
  count_dicts :: "(string \<rightharpoonup> int) list"

text \<open>The dict objects of line \<open>i\<close>, as the code reaches them: \<open>self.tracker_state_batch[i]\<close>,
  \<open>self.in_count_dict_batch[i]\<close>, \<open>self.out_count_dict_batch[i]\<close>.\<close>

definition side_map :: "LineCounter \<Rightarrow> nat \<Rightarrow> (int \<rightharpoonup> bool)" where
  "side_map t i = state_dicts t ! (tracker_state_batch t ! i)"

definition in_counts :: "LineCounter \<Rightarrow> nat \<Rightarrow> (string \<rightharpoonup> int)" where
  "in_counts t i = count_dicts t ! (in_count_dict_batch t ! i)"

definition out_counts :: "LineCounter \<Rightarrow> nat \<Rightarrow> (string \<rightharpoonup> int)" where
  "out_counts t i = count_dicts t ! (out_count_dict_batch t ! i)"

section \<open>Construction: \<open>LineCounter.__init__\<close>\<close>

text \<open>\<open>xs[i]\<close> for \<open>i \<ge> 0\<close>: raises \<open>IndexError\<close> out of range.\<close>

definition getitem :: "'a list \<Rightarrow> nat \<Rightarrow> error + 'a" where
  "getitem xs i = (if i < length xs then Inr (xs ! i) else Inl IndexError)"

text \<open>Lines 22-23: \<open>for i in range(len(self.start_points)):
  self.vector_batch.append(Vector(start=self.start_points[i], end=self.end_points[i]))\<close>.\<close>

fun make_vectors :: "Point list \<Rightarrow> Point list \<Rightarrow> Vector list \<Rightarrow> nat list \<Rightarrow> error + Vector list" where
  "make_vectors sp ep vb [] = Inr vb"
| "make_vectors sp ep vb (i # is) =
     (case getitem sp i of
        Inl e \<Rightarrow> Inl e
      | Inr s \<Rightarrow>
          (case getitem ep i of
             Inl e \<Rightarrow> Inl e
           | Inr e \<Rightarrow> make_vectors sp ep (vb @ [Vector s e]) is))"

text \<open>Lines 36-38: \<open>for id in self.class_id\<close>, zero both template dictionaries at
  \<open>self.class_name_dict[id]\<close>; a missing key raises \<open>KeyError\<close>.\<close>

fun zero_counts :: "LineCounter \<Rightarrow> int list \<Rightarrow> error + LineCounter" where
  "zero_counts t [] = Inr t"
| "zero_counts t (c # cs) =
     (case class_name_dict t c of
        None \<Rightarrow> Inl KeyError
      | Some nm \<Rightarrow>
          (let t1 = t\<lparr>count_dicts := (count_dicts t)
                       [in_count_dict t := (count_dicts t ! in_count_dict t)(nm \<mapsto> 0)]\<rparr>;
               t2 = t1\<lparr>count_dicts := (count_dicts t1)
                       [out_count_dict t1 := (count_dicts t1 ! out_count_dict t1)(nm \<mapsto> 0)]\<rparr>
           in zero_counts t2 cs))"

text \<open>Lines 40-43: one \<open>.copy()\<close> of each template per line; a copy is a new object with the
  entries of the template.\<close>

definition append_copies :: "LineCounter \<Rightarrow> LineCounter" where
  "append_copies t =
     (let t1 = t\<lparr>in_count_dict_batch := in_count_dict_batch t @ [length (count_dicts t)],
                 count_dicts := count_dicts t @ [count_dicts t ! in_count_dict t]\<rparr>;
          t2 = t1\<lparr>out_count_dict_batch := out_count_dict_batch t1 @ [length (count_dicts t1)],
                  count_dicts := count_dicts t1 @ [count_dicts t1 ! out_count_dict t1]\<rparr>
      in t2\<lparr>tracker_state_batch := tracker_state_batch t2 @ [length (state_dicts t2)],
             state_dicts := state_dicts t2 @ [state_dicts t2 ! tracker_state t2]\<rparr>)"

fun copy_batches :: "LineCounter \<Rightarrow> nat list \<Rightarrow> LineCounter" where
  "copy_batches t [] = t"
| "copy_batches t (i # is) = copy_batches (append_copies t) is"

text \<open>The whole constructor. The three empty dictionaries \<open>tracker_state\<close>, \<open>in_count_dict\<close>
  and \<open>out_count_dict\<close> are the first objects of the stores. An exception leaves no object:
  the result is \<open>Inl\<close>.\<close>

definition LineCounter_init ::
  "Point list \<Rightarrow> Point list \<Rightarrow> int list \<Rightarrow> (int \<rightharpoonup> string) \<Rightarrow> error + LineCounter" where
  "LineCounter_init start_pts end_pts cid names =
     (case make_vectors start_pts end_pts [] [0..<length start_pts] of
        Inl e \<Rightarrow> Inl e
      | Inr vb \<Rightarrow>
          (case zero_counts
                  \<lparr>vector_batch = vb, start_points = start_pts, end_points = end_pts,
                   tracker_state = 0, tracker_line = Map.empty,
                   in_count_dict = 0, out_count_dict = 1,
                   in_count_dict_batch = [], out_count_dict_batch = [],
                   tracker_state_batch = [],
                   in_count = 0, out_count = 0,
                   class_id = cid, class_name_dict = names,
                   state_dicts = [Map.empty], count_dicts = [Map.empty, Map.empty]\<rparr> cid of
             Inl e \<Rightarrow> Inl e
           | Inr t \<Rightarrow> Inr (copy_batches t [0..<length start_pts])))"

section \<open>\<open>LineCounter.update\<close>\<close>

text \<open>
  Modelled from the spec: \<open>Vector.is_in\<close> belongs to the \<open>supervision\<close> package and is not
  among the sources. Section 4.1 gives it as the sign test \<open>cross < 0\<close> of the cross product
  of \<open>B - A\<close> and \<open>P - A\<close>.
\<close>

definition is_in :: "Vector \<Rightarrow> Point \<Rightarrow> bool" where
  "is_in v p =
     ((point_x (end_of v) - point_x (start_of v)) * (point_y p - point_y (start_of v))
      - (point_y (end_of v) - point_y (start_of v)) * (point_x p - point_x (start_of v)) < 0)"

text \<open>Line 66: the centre of the bounding box.\<close>

fun mean_anchor :: "xyxy \<Rightarrow> Point" where
  "mean_anchor (x1, y1, x2, y2) = Point ((x1 + x2) / 2) ((y1 + y2) / 2)"

text \<open>Lines 67-71: the side test against every line, in configuration order.\<close>

definition triggers_batch :: "LineCounter \<Rightarrow> Point \<Rightarrow> bool list" where
  "triggers_batch t p = map (\<lambda>v. is_in v p) (vector_batch t)"

definition enumerate :: "'a list \<Rightarrow> (nat \<times> 'a) list" where
  "enumerate xs = zip [0..<length xs] xs"

text \<open>Lines 96 and 98: \<open>batch[id][self.class_name_dict[class_id]] += 1\<close>. Python evaluates
  \<open>batch[id]\<close>, then \<open>self.class_name_dict[class_id]\<close>, then reads the count, and only then
  stores.\<close>

definition bump :: "LineCounter \<Rightarrow> addr list \<Rightarrow> nat \<Rightarrow> int \<Rightarrow> error option \<times> LineCounter" where
  "bump t batch i c =
     (case getitem batch i of
        Inl e \<Rightarrow> (Some e, t)
      | Inr a \<Rightarrow>
          (case class_name_dict t c of
             None \<Rightarrow> (Some KeyError, t)
           | Some nm \<Rightarrow>
               (case (count_dicts t ! a) nm of
                  None \<Rightarrow> (Some KeyError, t)
                | Some k \<Rightarrow>
                    (None, t\<lparr>count_dicts := (count_dicts t)[a := (count_dicts t ! a)(nm \<mapsto> k + 1)]\<rparr>))))"

text \<open>Lines 73-98, the body of the loop over \<open>enumerate(triggers_batch)\<close> for one line
  index \<open>id\<close> and its side-test result. The result is the exception raised, if any, and the
  state as the mutations made before it leave it.\<close>

definition update_line ::
  "LineCounter \<Rightarrow> int \<Rightarrow> int \<Rightarrow> nat \<times> bool \<Rightarrow> error option \<times> LineCounter" where
  "update_line t tid c p =
     (case p of (i, tracker_state_new) \<Rightarrow>
      (case getitem (tracker_state_batch t) i of
         Inl e \<Rightarrow> (Some e, t)
       | Inr a \<Rightarrow>
           (case (state_dicts t ! a) tid of
              None \<Rightarrow>
                (None, t\<lparr>state_dicts := (state_dicts t)[a := (state_dicts t ! a)(tid \<mapsto> tracker_state_new)],
                         tracker_line := (tracker_line t)(tid \<mapsto> [c])\<rparr>)
            | Some s \<Rightarrow>
                if s = tracker_state_new then (None, t)
                else
                  (let t1 = t\<lparr>state_dicts := (state_dicts t)[a := (state_dicts t ! a)(tid \<mapsto> tracker_state_new)]\<rparr>
                   in case tracker_line t1 tid of
                        None \<Rightarrow> (Some KeyError, t1)
                      | Some l \<Rightarrow>
                          (let t2 = t1\<lparr>tracker_line := (tracker_line t1)(tid \<mapsto> l @ [int i])\<rparr>
                           in if tracker_state_new
                              then bump t2 (in_count_dict_batch t2) i c
                              else bump t2 (out_count_dict_batch t2) i c)))))"

fun update_lines ::
  "LineCounter \<Rightarrow> int \<Rightarrow> int \<Rightarrow> (nat \<times> bool) list \<Rightarrow> error option \<times> LineCounter" where
  "update_lines t tid c [] = (None, t)"
| "update_lines t tid c (p # ps) =
     (case update_line t tid c p of
        (Some e, t') \<Rightarrow> (Some e, t')
      | (None, t') \<Rightarrow> update_lines t' tid c ps)"

text \<open>Lines 52-98, the body of the loop over the detections.\<close>

fun update_detection :: "LineCounter \<Rightarrow> detection \<Rightarrow> error option \<times> LineCounter" where
  "update_detection t (box, confidence, c, None) = (None, t)"
| "update_detection t (box, confidence, c, Some tid) =
     update_lines t tid c (enumerate (triggers_batch t (mean_anchor box)))"

fun update :: "LineCounter \<Rightarrow> detection list \<Rightarrow> error option \<times> LineCounter" where
  "update t [] = (None, t)"
| "update t (d # ds) =
     (case update_detection t d of
        (Some e, t') \<Rightarrow> (Some e, t')
      | (None, t') \<Rightarrow> update t' ds)"

text \<open>A session: the tracker after a sequence of \<open>update\<close> calls. A call that raises leaves
  the mutations it made before the exception, and the next call starts from them.\<close>

fun run :: "LineCounter \<Rightarrow> detection list list \<Rightarrow> LineCounter" where
  "run t [] = t"
| "run t (ds # bs) = run (snd (update t ds)) bs"

section \<open>Vocabulary of the statements\<close>

definition nlines :: "LineCounter \<Rightarrow> nat" where
  "nlines t = length (vector_batch t)"

text \<open>The attributes that \<open>update\<close> never assigns, and the sizes of the two stores.\<close>

definition same_shape :: "LineCounter \<Rightarrow> LineCounter \<Rightarrow> bool" where
  "same_shape t t' \<longleftrightarrow>
     vector_batch t' = vector_batch t \<and>
     tracker_state_batch t' = tracker_state_batch t \<and>
     in_count_dict_batch t' = in_count_dict_batch t \<and>
     out_count_dict_batch t' = out_count_dict_batch t \<and>
     tracker_state t' = tracker_state t \<and>
     in_count_dict t' = in_count_dict t \<and>
     out_count_dict t' = out_count_dict t \<and>
     class_id t' = class_id t \<and>
     class_name_dict t' = class_name_dict t \<and>
     length (state_dicts t') = length (state_dicts t) \<and>
     length (count_dicts t') = length (count_dicts t)"

text \<open>The references of a tracker are well formed: one object per line in each batch, every
  reference points into its store, and no two references (templates included) share an
  object.\<close>

definition wf_refs :: "LineCounter \<Rightarrow> bool" where
  "wf_refs t \<longleftrightarrow>
     length (tracker_state_batch t) = nlines t \<and>
     length (in_count_dict_batch t) = nlines t \<and>
     length (out_count_dict_batch t) = nlines t \<and>
     distinct (tracker_state t # tracker_state_batch t) \<and>
     distinct (in_count_dict t # out_count_dict t # in_count_dict_batch t @ out_count_dict_batch t) \<and>
     list_all (\<lambda>a. a < length (state_dicts t)) (tracker_state t # tracker_state_batch t) \<and>
     list_all (\<lambda>a. a < length (count_dicts t))
       (in_count_dict t # out_count_dict t # in_count_dict_batch t @ out_count_dict_batch t)"

text \<open>Every line has seen the same identities, and they are the keys of \<open>tracker_line\<close>: an
  observation is tested against all lines.\<close>

definition same_ids :: "LineCounter \<Rightarrow> bool" where
  "same_ids t \<longleftrightarrow> (\<forall>i < nlines t. dom (side_map t i) = dom (tracker_line t))"

text \<open>The class names that have counters: the keys of the template \<open>in_count_dict\<close>.\<close>

definition known_names :: "LineCounter \<Rightarrow> string set" where
  "known_names t = dom (count_dicts t ! in_count_dict t)"

text \<open>A class identifier can be counted when \<open>class_name_dict\<close> resolves it to a name that has
  counters.\<close>

definition countable_class :: "LineCounter \<Rightarrow> int \<Rightarrow> bool" where
  "countable_class t c =
     (case class_name_dict t c of None \<Rightarrow> False | Some nm \<Rightarrow> nm \<in> known_names t)"

text \<open>The class registry of the specification is the pair \<open>class_id\<close>, \<open>class_name_dict\<close> given
  to the constructor: the identifiers listed in \<open>class_id\<close>, named by \<open>class_name_dict\<close>.\<close>

definition registered :: "LineCounter \<Rightarrow> int \<Rightarrow> bool" where
  "registered t c \<longleftrightarrow> c \<in> set (class_id t)"

definition wf_counts :: "LineCounter \<Rightarrow> bool" where
  "wf_counts t \<longleftrightarrow>
     finite (known_names t) \<and>
     (\<forall>c \<in> set (class_id t). countable_class t c) \<and>
     (\<forall>i < nlines t.
        dom (in_counts t i) = known_names t \<and> dom (out_counts t i) = known_names t \<and>
        (\<forall>nm k. in_counts t i nm = Some k \<longrightarrow> 0 \<le> k) \<and>
        (\<forall>nm k. out_counts t i nm = Some k \<longrightarrow> 0 \<le> k))"

text \<open>The invariant of a tracker: it holds after construction and after every \<open>update\<close>,
  also one that raised (lemmas \<open>init_inv\<close>, \<open>update_inv\<close>, \<open>run_inv\<close>).\<close>

definition tracker_inv :: "LineCounter \<Rightarrow> bool" where
  "tracker_inv t \<longleftrightarrow> wf_refs t \<and> same_ids t \<and> wf_counts t"

text \<open>An observation flips on line \<open>i\<close> when its side test differs from the side recorded for
  its identity in that line's side map.\<close>

fun is_flip :: "LineCounter \<Rightarrow> detection \<Rightarrow> nat \<Rightarrow> bool" where
  "is_flip t (box, confidence, c, None) i = False"
| "is_flip t (box, confidence, c, Some tid) i =
     (case side_map t i tid of
        None \<Rightarrow> False
      | Some s \<Rightarrow> s \<noteq> is_in (vector_batch t ! i) (mean_anchor box))"

text \<open>The number of flips on line \<open>i\<close> during one \<open>update\<close> call and during a session.\<close>

fun flips_update :: "LineCounter \<Rightarrow> detection list \<Rightarrow> nat \<Rightarrow> nat" where
  "flips_update t [] i = 0"
| "flips_update t (d # ds) i =
     (if is_flip t d i then 1 else 0) + flips_update (snd (update_detection t d)) ds i"

fun flips_run :: "LineCounter \<Rightarrow> detection list list \<Rightarrow> nat \<Rightarrow> nat" where
  "flips_run t [] i = 0"
| "flips_run t (ds # bs) i = flips_update t ds i + flips_run (snd (update t ds)) bs i"

text \<open>The sum over all classes of \<open>inCount + outCount\<close> of line \<open>i\<close>, over the keys of the
  line's \<open>in\<close> dictionary as \<open>LineCounterAnnotator.result\<close> reads them.\<close>

definition total_count :: "LineCounter \<Rightarrow> nat \<Rightarrow> int" where
  "total_count t i =
     (\<Sum>nm \<in> dom (in_counts t i). the (in_counts t i nm) + the (out_counts t i nm))"

text \<open>What the copying loop of the constructor maintains: the references are distinct and
  in range, and every copy still has the entries of its template.\<close>

definition copies_ok :: "LineCounter \<Rightarrow> bool" where
  "copies_ok t \<longleftrightarrow>
     length (tracker_state_batch t) = length (in_count_dict_batch t) \<and>
     length (out_count_dict_batch t) = length (in_count_dict_batch t) \<and>
     distinct (tracker_state t # tracker_state_batch t) \<and>
     distinct (in_count_dict t # out_count_dict t # in_count_dict_batch t @ out_count_dict_batch t) \<and>
     list_all (\<lambda>a. a < length (state_dicts t)) (tracker_state t # tracker_state_batch t) \<and>
     list_all (\<lambda>a. a < length (count_dicts t))
       (in_count_dict t # out_count_dict t # in_count_dict_batch t @ out_count_dict_batch t) \<and>
     list_all (\<lambda>a. state_dicts t ! a = state_dicts t ! tracker_state t) (tracker_state_batch t) \<and>
     list_all (\<lambda>a. count_dicts t ! a = count_dicts t ! in_count_dict t) (in_count_dict_batch t) \<and>
     list_all (\<lambda>a. count_dicts t ! a = count_dicts t ! out_count_dict t) (out_count_dict_batch t)"

text \<open>A count dictionary after \<open>d[name] += 1\<close>, for the name a class identifier resolves to.\<close>

fun incr :: "(string \<rightharpoonup> int) \<Rightarrow> string option \<Rightarrow> (string \<rightharpoonup> int)" where
  "incr m None = m"
| "incr m (Some nm) = (case m nm of None \<Rightarrow> m | Some k \<Rightarrow> m(nm \<mapsto> k + 1))"

text \<open>Two trackers used as concrete inputs: the one of the specification's example, with the
  single vertical line from \<open>(0, 0)\<close> to \<open>(0, 100)\<close> and the class \<open>car\<close>, and one with a second
  vertical line from \<open>(10, 0)\<close> to \<open>(10, 100)\<close>. They are what the constructor returns (lemmas
  \<open>init_car_tracker\<close>, \<open>init_two_lines\<close>). A point is on the \<open>True\<close> side of these lines when
  it lies to their right.\<close>

definition car_tracker :: LineCounter where
  "car_tracker =
     \<lparr>vector_batch = [Vector (Point 0 0) (Point 0 100)],
      start_points = [Point 0 0], end_points = [Point 0 100],
      tracker_state = 0, tracker_line = Map.empty,
      in_count_dict = 0, out_count_dict = 1,
      in_count_dict_batch = [2], out_count_dict_batch = [3], tracker_state_batch = [1],
      in_count = 0, out_count = 0,
      class_id = [2], class_name_dict = [2 \<mapsto> ''car''],
      state_dicts = [Map.empty, Map.empty],
      count_dicts = [[''car'' \<mapsto> 0], [''car'' \<mapsto> 0], [''car'' \<mapsto> 0], [''car'' \<mapsto> 0]]\<rparr>"

definition two_lines :: LineCounter where
  "two_lines =
     \<lparr>vector_batch = [Vector (Point 0 0) (Point 0 100), Vector (Point 10 0) (Point 10 100)],
      start_points = [Point 0 0, Point 10 0], end_points = [Point 0 100, Point 10 100],
      tracker_state = 0, tracker_line = Map.empty,
      in_count_dict = 0, out_count_dict = 1,
      in_count_dict_batch = [2, 4], out_count_dict_batch = [3, 5], tracker_state_batch = [1, 2],
      in_count = 0, out_count = 0,
      class_id = [2], class_name_dict = [2 \<mapsto> ''car''],
      state_dicts = [Map.empty, Map.empty, Map.empty],
      count_dicts = [[''car'' \<mapsto> 0], [''car'' \<mapsto> 0], [''car'' \<mapsto> 0], [''car'' \<mapsto> 0],
                     [''car'' \<mapsto> 0], [''car'' \<mapsto> 0]]\<rparr>"

text \<open>An observation of class \<open>c\<close> and identity \<open>tid\<close> whose box is centred at \<open>(x, 50)\<close>.\<close>

definition obs :: "real \<Rightarrow> int \<Rightarrow> int option \<Rightarrow> detection" where
  "obs x c tid = ((x - 1, 49, x + 1, 51), 0.9, c, tid)"

text \<open>The state in which an observation is processed: after the calls \<open>bs\<close> of a session
  and the observations \<open>ds\<close> that precede it in the current call. With \<open>ds = []\<close> it is the
  state between two calls.\<close>

definition during :: "LineCounter \<Rightarrow> detection list list \<Rightarrow> detection list \<Rightarrow> LineCounter" where
  "during t0 bs ds = snd (update (run t0 bs) ds)"


section \<open>Construction: lemmas\<close>

lemma make_vectors_ok:
  "\<forall>i \<in> set is. i < length sp \<and> i < length ep \<Longrightarrow>
   make_vectors sp ep vb is = Inr (vb @ map (\<lambda>i. Vector (sp ! i) (ep ! i)) is)"
  by (induction "is" arbitrary: vb) (simp_all add: getitem_def)

lemma make_vectors_fail:
  "\<forall>i \<in> set is. i < length sp \<Longrightarrow> \<exists>i \<in> set is. length ep \<le> i \<Longrightarrow>
   make_vectors sp ep vb is = Inl IndexError"
proof (induction "is" arbitrary: vb)
  case Nil
  then show ?case by simp
next
  case (Cons i "is")
  show ?case
  proof (cases "i < length ep")
    case True
    with Cons.prems have "\<exists>j \<in> set is. length ep \<le> j" by auto
    with Cons.IH Cons.prems True show ?thesis by (simp add: getitem_def)
  next
    case False
    with Cons.prems show ?thesis by (simp add: getitem_def)
  qed
qed

lemma make_vectors_length:
  "make_vectors sp ep vb is = Inr vb' \<Longrightarrow> length vb' = length vb + length is"
  by (induction "is" arbitrary: vb) (auto simp: getitem_def split: if_splits)

lemma fresh_notin: "list_all (\<lambda>a. a < n) xs \<Longrightarrow> n \<notin> set xs \<and> Suc n \<notin> set xs"
  by (induction xs) auto

lemma list_all_mono_Suc: "list_all (\<lambda>a. a < n) xs \<Longrightarrow> list_all (\<lambda>a. a < Suc n) xs \<and> list_all (\<lambda>a. a < Suc (Suc n)) xs"
  by (induction xs) auto

lemma list_all_nth_append:
  "list_all (\<lambda>a. a < length ys) xs \<Longrightarrow> list_all (\<lambda>a. ys ! a = v) xs \<Longrightarrow>
   list_all (\<lambda>a. (ys @ zs) ! a = v) xs"
  by (induction xs) (auto simp: nth_append)

lemma append_copies_eq:
  "out_count_dict t < length (count_dicts t) \<Longrightarrow>
   append_copies t =
     t\<lparr>in_count_dict_batch := in_count_dict_batch t @ [length (count_dicts t)],
       out_count_dict_batch := out_count_dict_batch t @ [Suc (length (count_dicts t))],
       tracker_state_batch := tracker_state_batch t @ [length (state_dicts t)],
       count_dicts := count_dicts t @ [count_dicts t ! in_count_dict t, count_dicts t ! out_count_dict t],
       state_dicts := state_dicts t @ [state_dicts t ! tracker_state t]\<rparr>"
  by (simp add: append_copies_def Let_def nth_append)

lemma append_copies_ok:
  assumes ok: "copies_ok t"
  shows "copies_ok (append_copies t)"
proof -
  let ?L = "length (count_dicts t)" and ?S = "length (state_dicts t)"
  from ok have len: "length (tracker_state_batch t) = length (in_count_dict_batch t)"
      "length (out_count_dict_batch t) = length (in_count_dict_batch t)"
    and ds: "distinct (tracker_state t # tracker_state_batch t)"
    and dc: "distinct (in_count_dict t # out_count_dict t # in_count_dict_batch t @ out_count_dict_batch t)"
    and bs: "tracker_state t < ?S" "list_all (\<lambda>a. a < ?S) (tracker_state_batch t)"
    and bc: "in_count_dict t < ?L" "out_count_dict t < ?L"
      "list_all (\<lambda>a. a < ?L) (in_count_dict_batch t)" "list_all (\<lambda>a. a < ?L) (out_count_dict_batch t)"
    and cs: "list_all (\<lambda>a. state_dicts t ! a = state_dicts t ! tracker_state t) (tracker_state_batch t)"
    and ci: "list_all (\<lambda>a. count_dicts t ! a = count_dicts t ! in_count_dict t) (in_count_dict_batch t)"
    and co: "list_all (\<lambda>a. count_dicts t ! a = count_dicts t ! out_count_dict t) (out_count_dict_batch t)"
    by (simp_all add: copies_ok_def)
  note eq = append_copies_eq [OF bc(2)]
  have f1: "?S \<notin> set (tracker_state_batch t)" using fresh_notin [OF bs(2)] by simp
  have f2: "?L \<notin> set (in_count_dict_batch t)" "Suc ?L \<notin> set (in_count_dict_batch t)"
    using fresh_notin [OF bc(3)] by simp_all
  have f3: "?L \<notin> set (out_count_dict_batch t)" "Suc ?L \<notin> set (out_count_dict_batch t)"
    using fresh_notin [OF bc(4)] by simp_all
  have c1: "distinct (tracker_state t # tracker_state_batch t @ [?S])"
    using ds bs(1) f1 by auto
  have c2: "distinct (in_count_dict t # out_count_dict t #
      (in_count_dict_batch t @ [?L]) @ (out_count_dict_batch t @ [Suc ?L]))"
    using dc bc(1,2) f2 f3 by auto
  have c3: "list_all (\<lambda>a. a < Suc ?S) (tracker_state t # tracker_state_batch t @ [?S])"
    using bs list_all_mono_Suc [OF bs(2)] by simp
  have c4: "list_all (\<lambda>a. a < Suc (Suc ?L))
      (in_count_dict t # out_count_dict t # (in_count_dict_batch t @ [?L]) @ (out_count_dict_batch t @ [Suc ?L]))"
    using bc(1,2) list_all_mono_Suc [OF bc(3)] list_all_mono_Suc [OF bc(4)] by simp
  let ?sd = "state_dicts t @ [state_dicts t ! tracker_state t]"
  let ?cd = "count_dicts t @ [count_dicts t ! in_count_dict t, count_dicts t ! out_count_dict t]"
  have c5: "list_all (\<lambda>a. ?sd ! a = ?sd ! tracker_state t) (tracker_state_batch t @ [?S])"
    using list_all_nth_append [OF bs(2) cs] bs(1) by (simp add: nth_append)
  have c6: "list_all (\<lambda>a. ?cd ! a = ?cd ! in_count_dict t) (in_count_dict_batch t @ [?L])"
    using list_all_nth_append [OF bc(3) ci] bc(1) by (simp add: nth_append)
  have c7: "list_all (\<lambda>a. ?cd ! a = ?cd ! out_count_dict t) (out_count_dict_batch t @ [Suc ?L])"
    using list_all_nth_append [OF bc(4) co] bc(2) by (simp add: nth_append)
  show ?thesis
    unfolding copies_ok_def eq using len c1 c2 c3 c4 c5 c6 c7 bs(1) bc(1,2) by (simp add: nth_append)
qed


lemma append_copies_fields:
  "vector_batch (append_copies t) = vector_batch t"
  "class_id (append_copies t) = class_id t"
  "class_name_dict (append_copies t) = class_name_dict t"
  "tracker_line (append_copies t) = tracker_line t"
  "tracker_state (append_copies t) = tracker_state t"
  "in_count_dict (append_copies t) = in_count_dict t"
  "out_count_dict (append_copies t) = out_count_dict t"
  "length (in_count_dict_batch (append_copies t)) = Suc (length (in_count_dict_batch t))"
  by (simp_all add: append_copies_def Let_def)

lemma append_copies_templates:
  assumes "copies_ok t"
  shows "state_dicts (append_copies t) ! tracker_state t = state_dicts t ! tracker_state t"
    and "count_dicts (append_copies t) ! in_count_dict t = count_dicts t ! in_count_dict t"
    and "count_dicts (append_copies t) ! out_count_dict t = count_dicts t ! out_count_dict t"
proof -
  from assms have b: "tracker_state t < length (state_dicts t)"
    "in_count_dict t < length (count_dicts t)" "out_count_dict t < length (count_dicts t)"
    by (simp_all add: copies_ok_def)
  note eq = append_copies_eq [OF b(3)]
  show "state_dicts (append_copies t) ! tracker_state t = state_dicts t ! tracker_state t"
    using b(1) by (simp add: eq nth_append)
  show "count_dicts (append_copies t) ! in_count_dict t = count_dicts t ! in_count_dict t"
    using b(2) by (simp add: eq nth_append)
  show "count_dicts (append_copies t) ! out_count_dict t = count_dicts t ! out_count_dict t"
    using b(3) by (simp add: eq nth_append)
qed

lemma copy_batches_ok:
  "copies_ok t \<Longrightarrow>
   copies_ok (copy_batches t is) \<and>
   length (in_count_dict_batch (copy_batches t is)) = length (in_count_dict_batch t) + length is \<and>
   vector_batch (copy_batches t is) = vector_batch t \<and>
   class_id (copy_batches t is) = class_id t \<and>
   class_name_dict (copy_batches t is) = class_name_dict t \<and>
   tracker_line (copy_batches t is) = tracker_line t \<and>
   tracker_state (copy_batches t is) = tracker_state t \<and>
   in_count_dict (copy_batches t is) = in_count_dict t \<and>
   out_count_dict (copy_batches t is) = out_count_dict t \<and>
   state_dicts (copy_batches t is) ! tracker_state t = state_dicts t ! tracker_state t \<and>
   count_dicts (copy_batches t is) ! in_count_dict t = count_dicts t ! in_count_dict t \<and>
   count_dicts (copy_batches t is) ! out_count_dict t = count_dicts t ! out_count_dict t"
proof (induction "is" arbitrary: t)
  case Nil
  then show ?case by simp
next
  case (Cons i "is")
  from Cons.prems have ok: "copies_ok (append_copies t)" by (rule append_copies_ok)
  from Cons.IH [OF ok] append_copies_templates [OF Cons.prems]
  show ?case by (simp add: append_copies_fields)
qed

lemma zero_counts_result:
  "in_count_dict t = 0 \<Longrightarrow> out_count_dict t = Suc 0 \<Longrightarrow> count_dicts t = [mi, mo] \<Longrightarrow>
   zero_counts t cs = Inr t' \<Longrightarrow>
   set cs \<subseteq> dom (class_name_dict t) \<and>
   t' = t\<lparr>count_dicts :=
          [\<lambda>nm. if \<exists>c \<in> set cs. class_name_dict t c = Some nm then Some 0 else mi nm,
           \<lambda>nm. if \<exists>c \<in> set cs. class_name_dict t c = Some nm then Some 0 else mo nm]\<rparr>"
proof (induction cs arbitrary: t mi mo)
  case Nil
  then show ?case by simp
next
  case (Cons c cs)
  from Cons.prems obtain nm where nm: "class_name_dict t c = Some nm"
    by (auto split: option.splits)
  let ?t2 = "t\<lparr>count_dicts := [mi(nm \<mapsto> 0), mo(nm \<mapsto> 0)]\<rparr>"
  from Cons.prems nm have z: "zero_counts ?t2 cs = Inr t'"
    by (simp add: Let_def)
  have "set cs \<subseteq> dom (class_name_dict ?t2) \<and>
    t' = ?t2\<lparr>count_dicts :=
          [\<lambda>n. if \<exists>c \<in> set cs. class_name_dict ?t2 c = Some n then Some 0 else (mi(nm \<mapsto> 0)) n,
           \<lambda>n. if \<exists>c \<in> set cs. class_name_dict ?t2 c = Some n then Some 0 else (mo(nm \<mapsto> 0)) n]\<rparr>"
    by (rule Cons.IH [of ?t2 "mi(nm \<mapsto> 0)" "mo(nm \<mapsto> 0)", OF _ _ _ z]) (simp_all add: Cons.prems fun_eq_iff)
  with nm show ?case by (auto simp: fun_eq_iff)
qed

lemma zero_counts_ok:
  "set cs \<subseteq> dom (class_name_dict t) \<Longrightarrow> \<exists>t'. zero_counts t cs = Inr t'"
proof (induction cs arbitrary: t)
  case Nil
  then show ?case by simp
next
  case (Cons c cs)
  then obtain nm where nm: "class_name_dict t c = Some nm" by auto
  let ?t1 = "t\<lparr>count_dicts := (count_dicts t)
                       [in_count_dict t := (count_dicts t ! in_count_dict t)(nm \<mapsto> 0)]\<rparr>"
  let ?t2 = "?t1\<lparr>count_dicts := (count_dicts ?t1)
                       [out_count_dict ?t1 := (count_dicts ?t1 ! out_count_dict ?t1)(nm \<mapsto> 0)]\<rparr>"
  from Cons.prems have "set cs \<subseteq> dom (class_name_dict ?t2)" by simp
  from Cons.IH [OF this] nm show ?case by (simp add: Let_def)
qed

lemma init_result:
  assumes "LineCounter_init sp ep cid names = Inr t"
  shows "copies_ok t \<and> nlines t = length sp \<and>
    length (in_count_dict_batch t) = length sp \<and>
    class_id t = cid \<and> class_name_dict t = names \<and> tracker_line t = Map.empty \<and>
    state_dicts t ! tracker_state t = Map.empty \<and>
    count_dicts t ! in_count_dict t =
      (\<lambda>nm. if \<exists>c \<in> set cid. names c = Some nm then Some 0 else None) \<and>
    count_dicts t ! out_count_dict t =
      (\<lambda>nm. if \<exists>c \<in> set cid. names c = Some nm then Some 0 else None) \<and>
    set cid \<subseteq> dom names"
proof -
  let ?t0 = "\<lparr>vector_batch = vb, start_points = sp, end_points = ep,
                   tracker_state = 0, tracker_line = Map.empty,
                   in_count_dict = 0, out_count_dict = 1,
                   in_count_dict_batch = [], out_count_dict_batch = [],
                   tracker_state_batch = [],
                   in_count = 0, out_count = 0,
                   class_id = cid, class_name_dict = names,
                   state_dicts = [Map.empty], count_dicts = [Map.empty, Map.empty]\<rparr>"
  from assms obtain vb t1 where
    vb: "make_vectors sp ep [] [0..<length sp] = Inr vb" and
    z: "zero_counts \<lparr>vector_batch = vb, start_points = sp, end_points = ep,
                   tracker_state = 0, tracker_line = Map.empty,
                   in_count_dict = 0, out_count_dict = 1,
                   in_count_dict_batch = [], out_count_dict_batch = [],
                   tracker_state_batch = [],
                   in_count = 0, out_count = 0,
                   class_id = cid, class_name_dict = names,
                   state_dicts = [Map.empty], count_dicts = [Map.empty, Map.empty]\<rparr> cid = Inr t1" and
    t: "t = copy_batches t1 [0..<length sp]"
    by (auto simp: LineCounter_init_def split: sum.splits)
  from zero_counts_result [OF _ _ _ z, of Map.empty Map.empty]
  have sub: "set cid \<subseteq> dom names" and
    t1: "t1 = \<lparr>vector_batch = vb, start_points = sp, end_points = ep,
                   tracker_state = 0, tracker_line = Map.empty,
                   in_count_dict = 0, out_count_dict = 1,
                   in_count_dict_batch = [], out_count_dict_batch = [],
                   tracker_state_batch = [],
                   in_count = 0, out_count = 0,
                   class_id = cid, class_name_dict = names,
                   state_dicts = [Map.empty],
                   count_dicts = [\<lambda>nm. if \<exists>c \<in> set cid. names c = Some nm then Some 0 else None,
                                  \<lambda>nm. if \<exists>c \<in> set cid. names c = Some nm then Some 0 else None]\<rparr>"
    by simp_all
  have ok1: "copies_ok t1" by (simp add: t1 copies_ok_def)
  from make_vectors_length [OF vb] have lvb: "length vb = length sp" by simp
  from copy_batches_ok [OF ok1, of "[0..<length sp]"] sub lvb
  show ?thesis by (simp add: t nlines_def) (simp add: t1)
qed

lemma finite_named: "finite {nm. \<exists>c \<in> set cs. (names :: int \<rightharpoonup> string) c = Some nm}"
proof -
  have "{nm. \<exists>c \<in> set cs. names c = Some nm} \<subseteq> (\<lambda>c. the (names c)) ` set cs"
  proof
    fix nm assume "nm \<in> {nm. \<exists>c \<in> set cs. names c = Some nm}"
    then obtain c where c: "c \<in> set cs" "names c = Some nm" by blast
    then have "nm = the (names c)" by simp
    with c(1) show "nm \<in> (\<lambda>c. the (names c)) ` set cs" by (rule image_eqI [rotated])
  qed
  then show ?thesis by (rule finite_subset) simp
qed

lemma init_lines:
  assumes init: "LineCounter_init sp ep cid names = Inr t" and i: "i < length sp"
  shows "side_map t i = Map.empty"
    and "in_counts t i = (\<lambda>nm. if \<exists>c \<in> set cid. names c = Some nm then Some 0 else None)"
    and "out_counts t i = (\<lambda>nm. if \<exists>c \<in> set cid. names c = Some nm then Some 0 else None)"
proof -
  note r = init_result [OF init]
  from r have ok: "copies_ok t" and len: "length (in_count_dict_batch t) = length sp" by blast+
  from ok have lens: "length (tracker_state_batch t) = length (in_count_dict_batch t)"
    "length (out_count_dict_batch t) = length (in_count_dict_batch t)"
    and cs: "list_all (\<lambda>a. state_dicts t ! a = state_dicts t ! tracker_state t) (tracker_state_batch t)"
    and ci: "list_all (\<lambda>a. count_dicts t ! a = count_dicts t ! in_count_dict t) (in_count_dict_batch t)"
    and co: "list_all (\<lambda>a. count_dicts t ! a = count_dicts t ! out_count_dict t) (out_count_dict_batch t)"
    unfolding copies_ok_def by blast+
  from r have tmpl: "state_dicts t ! tracker_state t = Map.empty"
    "count_dicts t ! in_count_dict t = (\<lambda>nm. if \<exists>c \<in> set cid. names c = Some nm then Some 0 else None)"
    "count_dicts t ! out_count_dict t = (\<lambda>nm. if \<exists>c \<in> set cid. names c = Some nm then Some 0 else None)"
    by blast+
  from cs lens len i have "state_dicts t ! (tracker_state_batch t ! i) = state_dicts t ! tracker_state t"
    by (simp only: list_all_length)
  then show "side_map t i = Map.empty" by (simp only: side_map_def tmpl)
  from ci len i have "count_dicts t ! (in_count_dict_batch t ! i) = count_dicts t ! in_count_dict t"
    by (simp only: list_all_length)
  then show "in_counts t i = (\<lambda>nm. if \<exists>c \<in> set cid. names c = Some nm then Some 0 else None)"
    by (simp only: in_counts_def tmpl)
  from co lens len i have "count_dicts t ! (out_count_dict_batch t ! i) = count_dicts t ! out_count_dict t"
    by (simp only: list_all_length)
  then show "out_counts t i = (\<lambda>nm. if \<exists>c \<in> set cid. names c = Some nm then Some 0 else None)"
    by (simp only: out_counts_def tmpl)
qed

lemma init_inv:
  assumes init: "LineCounter_init sp ep cid names = Inr t"
  shows "tracker_inv t"
proof -
  let ?Z = "\<lambda>nm. if \<exists>c \<in> set cid. names c = Some nm then Some (0::int) else None"
  note r = init_result [OF init]
  note l = init_lines [OF init]
  from r have n: "nlines t = length sp" and ok: "copies_ok t"
    and len: "length (in_count_dict_batch t) = length sp"
    and cid: "class_id t = cid" and nms: "class_name_dict t = names"
    and tl: "tracker_line t = Map.empty"
    and zi: "count_dicts t ! in_count_dict t = ?Z"
    and sub: "set cid \<subseteq> dom names"
    by blast+
  from ok n len have refs: "wf_refs t" by (simp add: wf_refs_def copies_ok_def)
  have ids: "same_ids t" unfolding same_ids_def n
  proof (intro allI impI)
    fix i assume "i < length sp"
    then show "dom (side_map t i) = dom (tracker_line t)" by (simp add: l(1) tl)
  qed
  have domZ: "dom ?Z = {nm. \<exists>c \<in> set cid. names c = Some nm}"
    by (auto simp: dom_def)
  have kn: "known_names t = {nm. \<exists>c \<in> set cid. names c = Some nm}"
    unfolding known_names_def zi by (rule domZ)
  have fin: "finite (known_names t)" unfolding kn by (rule finite_named)
  have cls: "\<forall>c \<in> set (class_id t). countable_class t c"
  proof
    fix c assume "c \<in> set (class_id t)"
    then have c: "c \<in> set cid" by (simp add: cid)
    with sub obtain nm where nm: "names c = Some nm" by blast
    with c have "nm \<in> known_names t" unfolding kn by blast
    with nm show "countable_class t c" by (simp add: countable_class_def nms)
  qed
  have lines: "\<forall>i < nlines t.
        dom (in_counts t i) = known_names t \<and> dom (out_counts t i) = known_names t \<and>
        (\<forall>nm k. in_counts t i nm = Some k \<longrightarrow> 0 \<le> k) \<and>
        (\<forall>nm k. out_counts t i nm = Some k \<longrightarrow> 0 \<le> k)"
    unfolding n
  proof (intro allI impI)
    fix i assume i: "i < length sp"
    have nonneg: "\<forall>nm k. ?Z nm = Some k \<longrightarrow> 0 \<le> k" by (simp split: if_splits)
    show "dom (in_counts t i) = known_names t \<and> dom (out_counts t i) = known_names t \<and>
        (\<forall>nm k. in_counts t i nm = Some k \<longrightarrow> 0 \<le> k) \<and>
        (\<forall>nm k. out_counts t i nm = Some k \<longrightarrow> 0 \<le> k)"
      unfolding l(2) [OF i] l(3) [OF i] kn using domZ nonneg by blast
  qed
  from refs ids fin cls lines show ?thesis
    unfolding tracker_inv_def wf_counts_def by blast
qed

section \<open>Update: what never changes\<close>

lemma same_shape_refl: "same_shape t t"
  by (simp add: same_shape_def)

lemma same_shape_trans: "same_shape t t1 \<Longrightarrow> same_shape t1 t2 \<Longrightarrow> same_shape t t2"
  by (simp add: same_shape_def)

lemma bump_shape: "bump t b i c = (e, t') \<Longrightarrow> same_shape t t'"
  by (auto simp: bump_def same_shape_def getitem_def split: sum.splits option.splits if_splits)

lemma update_line_shape: "update_line t tid c p = (e, t') \<Longrightarrow> same_shape t t'"
  by (auto simp: update_line_def same_shape_def Let_def getitem_def
      split: prod.splits sum.splits option.splits if_splits dest!: bump_shape)

lemma update_lines_shape: "update_lines t tid c ps = (e, t') \<Longrightarrow> same_shape t t'"
proof (induction ps arbitrary: t)
  case Nil
  then show ?case by (simp add: same_shape_refl)
next
  case (Cons p ps)
  obtain e1 t1 where s: "update_line t tid c p = (e1, t1)" by (cases "update_line t tid c p")
  from s have sh: "same_shape t t1" by (rule update_line_shape)
  show ?case
  proof (cases e1)
    case None
    with Cons.prems s have "update_lines t1 tid c ps = (e, t')" by simp
    from Cons.IH [OF this] sh show ?thesis by (rule same_shape_trans [rotated])
  next
    case (Some a)
    with Cons.prems s have "t' = t1" by simp
    with sh show ?thesis by simp
  qed
qed

lemma update_detection_shape: "update_detection t d = (e, t') \<Longrightarrow> same_shape t t'"
proof -
  obtain box cf c tido where d: "d = (box, cf, c, tido)" by (cases d)
  assume u: "update_detection t d = (e, t')"
  show ?thesis
  proof (cases tido)
    case None
    with u d show ?thesis by (simp add: same_shape_refl)
  next
    case (Some tid)
    with u d show ?thesis by (auto dest: update_lines_shape)
  qed
qed

lemma update_shape: "update t ds = (e, t') \<Longrightarrow> same_shape t t'"
proof (induction ds arbitrary: t)
  case Nil
  then show ?case by (simp add: same_shape_refl)
next
  case (Cons d ds)
  obtain e1 t1 where s: "update_detection t d = (e1, t1)" by (cases "update_detection t d")
  from s have sh: "same_shape t t1" by (rule update_detection_shape)
  show ?case
  proof (cases e1)
    case None
    with Cons.prems s have "update t1 ds = (e, t')" by simp
    from Cons.IH [OF this] sh show ?thesis by (rule same_shape_trans [rotated])
  next
    case (Some a)
    with Cons.prems s have "t' = t1" by simp
    with sh show ?thesis by simp
  qed
qed

lemma same_shape_nlines: "same_shape t t' \<Longrightarrow> nlines t' = nlines t"
  by (simp add: same_shape_def nlines_def)

lemma same_shape_wf_refs: "same_shape t t' \<Longrightarrow> wf_refs t \<Longrightarrow> wf_refs t'"
  by (simp add: same_shape_def wf_refs_def nlines_def)

lemma same_shape_known_names:
  "same_shape t t' \<Longrightarrow> count_dicts t' ! in_count_dict t = count_dicts t ! in_count_dict t \<Longrightarrow>
   known_names t' = known_names t"
  by (simp add: same_shape_def known_names_def)

section \<open>Update: the references of distinct lines\<close>

lemma wf_refs_len:
  assumes "wf_refs t" "i < nlines t"
  shows "i < length (tracker_state_batch t)" "i < length (in_count_dict_batch t)"
    "i < length (out_count_dict_batch t)"
  using assms by (simp_all add: wf_refs_def)

lemma wf_refs_bound:
  assumes wf: "wf_refs t" and i: "i < nlines t"
  shows "tracker_state_batch t ! i < length (state_dicts t)"
    "in_count_dict_batch t ! i < length (count_dicts t)"
    "out_count_dict_batch t ! i < length (count_dicts t)"
proof -
  note l = wf_refs_len [OF wf i]
  from wf have a: "list_all (\<lambda>a. a < length (state_dicts t)) (tracker_state_batch t)"
    and b: "list_all (\<lambda>a. a < length (count_dicts t)) (in_count_dict_batch t)"
    and c: "list_all (\<lambda>a. a < length (count_dicts t)) (out_count_dict_batch t)"
    by (simp_all add: wf_refs_def)
  from a l(1) show "tracker_state_batch t ! i < length (state_dicts t)"
    by (simp add: list_all_length)
  from b l(2) show "in_count_dict_batch t ! i < length (count_dicts t)"
    by (simp add: list_all_length)
  from c l(3) show "out_count_dict_batch t ! i < length (count_dicts t)"
    by (simp add: list_all_length)
qed

lemma wf_refs_neq:
  assumes wf: "wf_refs t" and i: "i < nlines t" and j: "j < nlines t"
  shows "(tracker_state_batch t ! i = tracker_state_batch t ! j) = (i = j)"
    "(in_count_dict_batch t ! i = in_count_dict_batch t ! j) = (i = j)"
    "(out_count_dict_batch t ! i = out_count_dict_batch t ! j) = (i = j)"
    "in_count_dict_batch t ! i \<noteq> out_count_dict_batch t ! j"
    "out_count_dict_batch t ! i \<noteq> in_count_dict_batch t ! j"
    "in_count_dict_batch t ! i \<noteq> in_count_dict t"
    "out_count_dict_batch t ! i \<noteq> in_count_dict t"
proof -
  note li = wf_refs_len [OF wf i] and lj = wf_refs_len [OF wf j]
  from wf have d1: "distinct (tracker_state_batch t)"
    and d2: "distinct (in_count_dict_batch t)" and d3: "distinct (out_count_dict_batch t)"
    and dj: "set (in_count_dict_batch t) \<inter> set (out_count_dict_batch t) = {}"
    and t1: "in_count_dict t \<notin> set (in_count_dict_batch t)"
    and t2: "in_count_dict t \<notin> set (out_count_dict_batch t)"
    by (simp_all add: wf_refs_def)
  from d1 li(1) lj(1) show "(tracker_state_batch t ! i = tracker_state_batch t ! j) = (i = j)"
    by (rule nth_eq_iff_index_eq)
  from d2 li(2) lj(2) show "(in_count_dict_batch t ! i = in_count_dict_batch t ! j) = (i = j)"
    by (rule nth_eq_iff_index_eq)
  from d3 li(3) lj(3) show "(out_count_dict_batch t ! i = out_count_dict_batch t ! j) = (i = j)"
    by (rule nth_eq_iff_index_eq)
  have mi: "in_count_dict_batch t ! i \<in> set (in_count_dict_batch t)"
    "out_count_dict_batch t ! i \<in> set (out_count_dict_batch t)"
    using li by simp_all
  have mj: "in_count_dict_batch t ! j \<in> set (in_count_dict_batch t)"
    "out_count_dict_batch t ! j \<in> set (out_count_dict_batch t)"
    using lj by simp_all
  from dj mi(1) mj(2) show "in_count_dict_batch t ! i \<noteq> out_count_dict_batch t ! j" by fastforce
  from dj mi(2) mj(1) show "out_count_dict_batch t ! i \<noteq> in_count_dict_batch t ! j" by fastforce
  from t1 mi(1) show "in_count_dict_batch t ! i \<noteq> in_count_dict t" by metis
  from t2 mi(2) show "out_count_dict_batch t ! i \<noteq> in_count_dict t" by metis
qed

text \<open>Writing the objects of line \<open>i\<close>, read through line \<open>j\<close>.\<close>

lemma side_map_write:
  assumes wf: "wf_refs t" and i: "i < nlines t" and j: "j < nlines t"
  shows "state_dicts t' = (state_dicts t)[tracker_state_batch t ! i := m] \<Longrightarrow>
         tracker_state_batch t' = tracker_state_batch t \<Longrightarrow>
         side_map t' j = (if j = i then m else side_map t j)"
  using wf_refs_bound(1) [OF wf i] wf_refs_neq(1) [OF wf i j]
  by (auto simp: side_map_def)

lemma in_counts_write_in:
  assumes wf: "wf_refs t" and i: "i < nlines t" and j: "j < nlines t"
  shows "count_dicts t' = (count_dicts t)[in_count_dict_batch t ! i := m] \<Longrightarrow>
         in_count_dict_batch t' = in_count_dict_batch t \<Longrightarrow>
         in_counts t' j = (if j = i then m else in_counts t j)"
  using wf_refs_bound(2) [OF wf i] wf_refs_neq(2) [OF wf i j]
  by (auto simp: in_counts_def)

lemma out_counts_write_in:
  assumes wf: "wf_refs t" and i: "i < nlines t" and j: "j < nlines t"
  shows "count_dicts t' = (count_dicts t)[in_count_dict_batch t ! i := m] \<Longrightarrow>
         out_count_dict_batch t' = out_count_dict_batch t \<Longrightarrow>
         out_counts t' j = out_counts t j"
  using wf_refs_neq(4) [OF wf i j]
  by (auto simp: out_counts_def)

lemma out_counts_write_out:
  assumes wf: "wf_refs t" and i: "i < nlines t" and j: "j < nlines t"
  shows "count_dicts t' = (count_dicts t)[out_count_dict_batch t ! i := m] \<Longrightarrow>
         out_count_dict_batch t' = out_count_dict_batch t \<Longrightarrow>
         out_counts t' j = (if j = i then m else out_counts t j)"
  using wf_refs_bound(3) [OF wf i] wf_refs_neq(3) [OF wf i j]
  by (auto simp: out_counts_def)

lemma in_counts_write_out:
  assumes wf: "wf_refs t" and i: "i < nlines t" and j: "j < nlines t"
  shows "count_dicts t' = (count_dicts t)[out_count_dict_batch t ! i := m] \<Longrightarrow>
         in_count_dict_batch t' = in_count_dict_batch t \<Longrightarrow>
         in_counts t' j = in_counts t j"
  using wf_refs_neq(5) [OF wf i j]
  by (auto simp: in_counts_def)

lemma template_write:
  assumes wf: "wf_refs t" and i: "i < nlines t"
  shows "(count_dicts t)[in_count_dict_batch t ! i := m] ! in_count_dict t = count_dicts t ! in_count_dict t"
    "(count_dicts t)[out_count_dict_batch t ! i := m] ! in_count_dict t = count_dicts t ! in_count_dict t"
  using wf_refs_neq(6,7) [OF wf i i] by simp_all

section \<open>Update: one line, case by case\<close>

lemma bump_class_missing:
  "i < length b \<Longrightarrow> class_name_dict t c = None \<Longrightarrow> bump t b i c = (Some KeyError, t)"
  by (simp add: bump_def getitem_def)

lemma bump_name_missing:
  "i < length b \<Longrightarrow> class_name_dict t c = Some nm \<Longrightarrow> (count_dicts t ! (b ! i)) nm = None \<Longrightarrow>
   bump t b i c = (Some KeyError, t)"
  by (simp add: bump_def getitem_def)

lemma bump_counted:
  "i < length b \<Longrightarrow> class_name_dict t c = Some nm \<Longrightarrow> (count_dicts t ! (b ! i)) nm = Some k \<Longrightarrow>
   bump t b i c =
     (None, t\<lparr>count_dicts := (count_dicts t)[b ! i := (count_dicts t ! (b ! i))(nm \<mapsto> k + 1)]\<rparr>)"
  by (simp add: bump_def getitem_def)

lemma update_line_new:
  "i < length (tracker_state_batch t) \<Longrightarrow> side_map t i tid = None \<Longrightarrow>
   update_line t tid c (i, s) =
     (None, t\<lparr>state_dicts := (state_dicts t)[tracker_state_batch t ! i := (side_map t i)(tid \<mapsto> s)],
              tracker_line := (tracker_line t)(tid \<mapsto> [c])\<rparr>)"
  by (simp add: update_line_def getitem_def side_map_def)

lemma update_line_same:
  "i < length (tracker_state_batch t) \<Longrightarrow> side_map t i tid = Some s \<Longrightarrow>
   update_line t tid c (i, s) = (None, t)"
  by (simp add: update_line_def getitem_def side_map_def)

lemma update_line_flip_nolog:
  "i < length (tracker_state_batch t) \<Longrightarrow> side_map t i tid = Some (\<not> s) \<Longrightarrow>
   tracker_line t tid = None \<Longrightarrow>
   update_line t tid c (i, s) =
     (Some KeyError,
      t\<lparr>state_dicts := (state_dicts t)[tracker_state_batch t ! i := (side_map t i)(tid \<mapsto> s)]\<rparr>)"
  by (simp add: update_line_def getitem_def side_map_def Let_def)

lemma update_line_flip:
  "i < length (tracker_state_batch t) \<Longrightarrow> side_map t i tid = Some (\<not> s) \<Longrightarrow>
   tracker_line t tid = Some l \<Longrightarrow>
   update_line t tid c (i, s) =
     bump (t\<lparr>state_dicts := (state_dicts t)[tracker_state_batch t ! i := (side_map t i)(tid \<mapsto> s)],
             tracker_line := (tracker_line t)(tid \<mapsto> l @ [int i])\<rparr>)
       (if s then in_count_dict_batch t else out_count_dict_batch t) i c"
  by (simp add: update_line_def getitem_def side_map_def Let_def)

lemma side_cases:
  obtains (new) "m tid = None" | (same) "m tid = Some s" | (flip) "m tid = Some (\<not> s)"
  by (cases "m tid") auto

text \<open>The six ways in which the body of the loop over the lines ends, with the state each
  leaves. \<open>cnt\<close> is the dictionary the flip would count in.\<close>

lemma update_line_cases [consumes 3, case_names new same nolog noclass noname counted]:
  assumes wf: "wf_refs t" and i: "i < nlines t"
    and r: "update_line t tid c (i, s) = (e, t')"
  obtains
    (new) "side_map t i tid = None" "e = None"
      "t' = t\<lparr>state_dicts := (state_dicts t)[tracker_state_batch t ! i := (side_map t i)(tid \<mapsto> s)],
               tracker_line := (tracker_line t)(tid \<mapsto> [c])\<rparr>"
  | (same) "side_map t i tid = Some s" "e = None" "t' = t"
  | (nolog) "side_map t i tid = Some (\<not> s)" "tracker_line t tid = None" "e = Some KeyError"
      "t' = t\<lparr>state_dicts := (state_dicts t)[tracker_state_batch t ! i := (side_map t i)(tid \<mapsto> s)]\<rparr>"
  | (noclass) l where "side_map t i tid = Some (\<not> s)" "tracker_line t tid = Some l"
      "class_name_dict t c = None" "e = Some KeyError"
      "t' = t\<lparr>state_dicts := (state_dicts t)[tracker_state_batch t ! i := (side_map t i)(tid \<mapsto> s)],
               tracker_line := (tracker_line t)(tid \<mapsto> l @ [int i])\<rparr>"
  | (noname) l nm where "side_map t i tid = Some (\<not> s)" "tracker_line t tid = Some l"
      "class_name_dict t c = Some nm" "(if s then in_counts t i else out_counts t i) nm = None"
      "e = Some KeyError"
      "t' = t\<lparr>state_dicts := (state_dicts t)[tracker_state_batch t ! i := (side_map t i)(tid \<mapsto> s)],
               tracker_line := (tracker_line t)(tid \<mapsto> l @ [int i])\<rparr>"
  | (counted) l nm k where "side_map t i tid = Some (\<not> s)" "tracker_line t tid = Some l"
      "class_name_dict t c = Some nm" "(if s then in_counts t i else out_counts t i) nm = Some k"
      "e = None"
      "t' = t\<lparr>state_dicts := (state_dicts t)[tracker_state_batch t ! i := (side_map t i)(tid \<mapsto> s)],
               tracker_line := (tracker_line t)(tid \<mapsto> l @ [int i]),
               count_dicts := (count_dicts t)
                 [(if s then in_count_dict_batch t else out_count_dict_batch t) ! i :=
                    (if s then in_counts t i else out_counts t i)(nm \<mapsto> k + 1)]\<rparr>"
proof -
  note len = wf_refs_len [OF wf i]
  let ?b = "if s then in_count_dict_batch t else out_count_dict_batch t"
  let ?cnt = "if s then in_counts t i else out_counts t i"
  have ib: "i < length ?b" using len by simp
  have cnt: "count_dicts t ! (?b ! i) = ?cnt" by (simp add: in_counts_def out_counts_def)
  show ?thesis
  proof (cases rule: side_cases [where m = "side_map t i" and tid = tid and s = s])
    case new
    with r len(1) show ?thesis by (intro that(1)) (simp_all add: update_line_new)
  next
    case same
    with r len(1) show ?thesis by (intro that(2)) (simp_all add: update_line_same)
  next
    case flip
    show ?thesis
    proof (cases "tracker_line t tid")
      case None
      with r len(1) flip show ?thesis
        by (intro that(3)) (simp_all add: update_line_flip_nolog)
    next
      case (Some l)
      let ?t2 = "t\<lparr>state_dicts := (state_dicts t)[tracker_state_batch t ! i := (side_map t i)(tid \<mapsto> s)],
             tracker_line := (tracker_line t)(tid \<mapsto> l @ [int i])\<rparr>"
      from r have b: "bump ?t2 ?b i c = (e, t')"
        unfolding update_line_flip [OF len(1) flip Some] .
      show ?thesis
      proof (cases "class_name_dict t c")
        case None
        then have "class_name_dict ?t2 c = None" by simp
        from bump_class_missing [OF ib this] b have "e = Some KeyError" "t' = ?t2" by simp_all
        with flip Some None show ?thesis by (intro that(4))
      next
        case nm: (Some nm)
        then have cn: "class_name_dict ?t2 c = Some nm" by simp
        show ?thesis
        proof (cases "?cnt nm")
          case None
          then have "(count_dicts ?t2 ! (?b ! i)) nm = None" using cnt by simp
          from bump_name_missing [OF ib cn this] b have "e = Some KeyError" "t' = ?t2" by simp_all
          with flip Some nm None show ?thesis by (intro that(5))
        next
          case k: (Some k)
          then have "(count_dicts ?t2 ! (?b ! i)) nm = Some k" using cnt by simp
          from bump_counted [OF ib cn this] b cnt
          have "e = None" "t' = ?t2\<lparr>count_dicts := (count_dicts t)[?b ! i := ?cnt(nm \<mapsto> k + 1)]\<rparr>"
            by simp_all
          with flip Some nm k show ?thesis by (intro that(6)) simp_all
        qed
      qed
    qed
  qed
qed

section \<open>Update: the effect of one line step on every line\<close>

lemma write_views:
  assumes wf: "wf_refs t" and i: "i < nlines t" and j: "j < nlines t"
    and sd: "state_dicts t' = (state_dicts t)[tracker_state_batch t ! i := m]"
    and cd: "count_dicts t' =
      (if w then (count_dicts t)[(if s then in_count_dict_batch t else out_count_dict_batch t) ! i := m']
       else count_dicts t)"
    and sh: "tracker_state_batch t' = tracker_state_batch t"
      "in_count_dict_batch t' = in_count_dict_batch t"
      "out_count_dict_batch t' = out_count_dict_batch t"
  shows "side_map t' j = (if j = i then m else side_map t j)"
    and "in_counts t' j = (if j = i \<and> w \<and> s then m' else in_counts t j)"
    and "out_counts t' j = (if j = i \<and> w \<and> \<not> s then m' else out_counts t j)"
proof -
  show "side_map t' j = (if j = i then m else side_map t j)"
    by (rule side_map_write [OF wf i j sd sh(1)])
  show "in_counts t' j = (if j = i \<and> w \<and> s then m' else in_counts t j)"
  proof (cases w)
    case False
    with cd sh(2) show ?thesis by (simp add: in_counts_def)
  next
    case True
    show ?thesis
    proof (cases s)
      case True
      with \<open>w\<close> cd have "count_dicts t' = (count_dicts t)[in_count_dict_batch t ! i := m']" by simp
      from in_counts_write_in [OF wf i j this sh(2)] True \<open>w\<close> show ?thesis by simp
    next
      case False
      with \<open>w\<close> cd have "count_dicts t' = (count_dicts t)[out_count_dict_batch t ! i := m']" by simp
      from in_counts_write_out [OF wf i j this sh(2)] False show ?thesis by simp
    qed
  qed
  show "out_counts t' j = (if j = i \<and> w \<and> \<not> s then m' else out_counts t j)"
  proof (cases w)
    case False
    with cd sh(3) show ?thesis by (simp add: out_counts_def)
  next
    case True
    show ?thesis
    proof (cases s)
      case True
      with \<open>w\<close> cd have "count_dicts t' = (count_dicts t)[in_count_dict_batch t ! i := m']" by simp
      from out_counts_write_in [OF wf i j this sh(3)] True show ?thesis by simp
    next
      case False
      with \<open>w\<close> cd have "count_dicts t' = (count_dicts t)[out_count_dict_batch t ! i := m']" by simp
      from out_counts_write_out [OF wf i j this sh(3)] False \<open>w\<close> show ?thesis by simp
    qed
  qed
qed

text \<open>A line step counts when it ends without exception on a flip.\<close>

lemma update_line_views:
  assumes wf: "wf_refs t" and i: "i < nlines t"
    and r: "update_line t tid c (i, s) = (e, t')" and j: "j < nlines t"
  shows "side_map t' j = (if j = i then (side_map t i)(tid \<mapsto> s) else side_map t j)"
    and "in_counts t' j =
      (if j = i \<and> (e = None \<and> side_map t i tid = Some (\<not> s)) \<and> s
       then incr (in_counts t i) (class_name_dict t c) else in_counts t j)"
    and "out_counts t' j =
      (if j = i \<and> (e = None \<and> side_map t i tid = Some (\<not> s)) \<and> \<not> s
       then incr (out_counts t i) (class_name_dict t c) else out_counts t j)"
proof -
  let ?m = "(side_map t i)(tid \<mapsto> s)"
  let ?w = "e = None \<and> side_map t i tid = Some (\<not> s)"
  let ?m' = "incr (if s then in_counts t i else out_counts t i) (class_name_dict t c)"
  have "state_dicts t' = (state_dicts t)[tracker_state_batch t ! i := ?m] \<and>
    count_dicts t' =
      (if ?w then (count_dicts t)[(if s then in_count_dict_batch t else out_count_dict_batch t) ! i := ?m']
       else count_dicts t) \<and>
    tracker_state_batch t' = tracker_state_batch t \<and>
    in_count_dict_batch t' = in_count_dict_batch t \<and>
    out_count_dict_batch t' = out_count_dict_batch t"
    using wf i r
  proof (cases rule: update_line_cases)
    case new
    then show ?thesis by simp
  next
    case same
    then have "?m = side_map t i" by (simp add: map_upd_triv)
    then have "(state_dicts t)[tracker_state_batch t ! i := ?m] = state_dicts t"
      by (simp add: side_map_def)
    with same show ?thesis by simp
  next
    case nolog
    then show ?thesis by simp
  next
    case (noclass l)
    then show ?thesis by simp
  next
    case (noname l nm)
    then show ?thesis by simp
  next
    case (counted l nm k)
    then show ?thesis by (cases s) simp_all
  qed
  then have sd: "state_dicts t' = (state_dicts t)[tracker_state_batch t ! i := ?m]"
    and cd: "count_dicts t' =
      (if ?w then (count_dicts t)[(if s then in_count_dict_batch t else out_count_dict_batch t) ! i := ?m']
       else count_dicts t)"
    and sh: "tracker_state_batch t' = tracker_state_batch t"
      "in_count_dict_batch t' = in_count_dict_batch t"
      "out_count_dict_batch t' = out_count_dict_batch t"
    by blast+
  note v = write_views [OF wf i j sd cd sh]
  show "side_map t' j = (if j = i then ?m else side_map t j)" by (rule v(1))
  show "in_counts t' j =
      (if j = i \<and> ?w \<and> s then incr (in_counts t i) (class_name_dict t c) else in_counts t j)"
    unfolding v(2) by simp
  show "out_counts t' j =
      (if j = i \<and> ?w \<and> \<not> s then incr (out_counts t i) (class_name_dict t c) else out_counts t j)"
    unfolding v(3) by simp
qed

lemma update_line_error:
  assumes wf: "wf_refs t" and i: "i < nlines t"
    and r: "update_line t tid c (i, s) = (e, t')"
  shows "e =
    (if side_map t i tid = Some (\<not> s) \<and>
        (tracker_line t tid = None \<or>
         (case class_name_dict t c of
            None \<Rightarrow> True
          | Some nm \<Rightarrow> (if s then in_counts t i else out_counts t i) nm = None))
     then Some KeyError else None)"
  using wf i r by (cases rule: update_line_cases) simp_all

lemma update_line_log:
  assumes wf: "wf_refs t" and i: "i < nlines t"
    and r: "update_line t tid c (i, s) = (e, t')"
  shows "tracker_line t' =
    (case side_map t i tid of
       None \<Rightarrow> (tracker_line t)(tid \<mapsto> [c])
     | Some s0 \<Rightarrow>
         if s0 = s then tracker_line t
         else (case tracker_line t tid of
                 None \<Rightarrow> tracker_line t
               | Some l \<Rightarrow> (tracker_line t)(tid \<mapsto> l @ [int i])))"
  using wf i r by (cases rule: update_line_cases) simp_all

lemma update_line_template:
  assumes wf: "wf_refs t" and i: "i < nlines t"
    and r: "update_line t tid c (i, s) = (e, t')"
  shows "count_dicts t' ! in_count_dict t = count_dicts t ! in_count_dict t"
  using wf i r
proof (cases rule: update_line_cases)
  case (counted l nm k)
  with template_write [OF wf i] show ?thesis by (cases s) simp_all
qed simp_all

section \<open>Sessions\<close>

lemma init_car_tracker:
  "LineCounter_init [Point 0 0] [Point 0 100] [2] [2 \<mapsto> ''car''] = Inr car_tracker"
  by (simp add: LineCounter_init_def getitem_def append_copies_def Let_def car_tracker_def)

lemma init_two_lines:
  "LineCounter_init [Point 0 0, Point 10 0] [Point 0 100, Point 10 100] [2] [2 \<mapsto> ''car'']
     = Inr two_lines"
  by (simp add: LineCounter_init_def getitem_def append_copies_def Let_def two_lines_def)

lemma run_shape: "same_shape t (run t bs)"
proof (induction bs arbitrary: t)
  case Nil
  show ?case by (simp add: same_shape_refl)
next
  case (Cons ds bs)
  have "update t ds = (fst (update t ds), snd (update t ds))" by simp
  then have "same_shape t (snd (update t ds))" by (rule update_shape)
  from this Cons.IH [of "snd (update t ds)"] show ?case
    by (simp add: same_shape_trans)
qed

section \<open>Counts: domain, sign and growth\<close>

lemma dom_incr: "dom (incr m x) = dom m"
proof (cases x)
  case None
  then show ?thesis by simp
next
  case (Some nm)
  then show ?thesis by (cases "m nm") auto
qed

lemma incr_mono: "m nm = Some k \<Longrightarrow> \<exists>k'. incr m x nm = Some k' \<and> k \<le> k'"
proof (cases x)
  case None
  assume "m nm = Some k"
  with None show ?thesis by simp
next
  case (Some a)
  assume "m nm = Some k"
  with Some show ?thesis by (cases "m a") auto
qed

lemma incr_nonneg:
  assumes "\<forall>nm k. m nm = Some k \<longrightarrow> 0 \<le> k" and "incr m x nm = Some k"
  shows "0 \<le> k"
proof (cases x)
  case None
  with assms show ?thesis by simp
next
  case (Some a)
  show ?thesis
  proof (cases "m a")
    case None
    with Some assms show ?thesis by simp
  next
    case (Some ka)
    from assms(1) Some have "0 \<le> ka" by blast
    with Some \<open>x = Some a\<close> assms show ?thesis by (cases "nm = a") auto
  qed
qed

lemma sum_incr:
  assumes fin: "finite (dom m)" and nm: "m nm = Some k"
  shows "(\<Sum>a \<in> dom m. the (incr m (Some nm) a)) = (\<Sum>a \<in> dom m. the (m a)) + 1"
proof -
  from nm have mem: "nm \<in> dom m" by blast
  have rest: "(\<Sum>a \<in> dom m - {nm}. the (incr m (Some nm) a)) = (\<Sum>a \<in> dom m - {nm}. the (m a))"
    by (rule sum.cong) (simp_all add: nm)
  have "(\<Sum>a \<in> dom m. the (incr m (Some nm) a)) =
      the (incr m (Some nm) nm) + (\<Sum>a \<in> dom m - {nm}. the (incr m (Some nm) a))"
    by (rule sum.remove [OF fin mem])
  also have "\<dots> = (k + 1) + (\<Sum>a \<in> dom m - {nm}. the (m a))"
    by (simp add: rest nm)
  also have "\<dots> = (the (m nm) + (\<Sum>a \<in> dom m - {nm}. the (m a))) + 1"
    by (simp add: nm)
  also have "the (m nm) + (\<Sum>a \<in> dom m - {nm}. the (m a)) = (\<Sum>a \<in> dom m. the (m a))"
    by (rule sum.remove [OF fin mem, symmetric])
  finally show ?thesis .
qed

lemma incr_or_same:
  assumes d: "m' = m \<or> m' = incr m x"
  shows "dom m' = dom m"
    and "m nm = Some k \<Longrightarrow> \<exists>k'. m' nm = Some k' \<and> k \<le> k'"
    and "\<forall>nm k. m nm = Some k \<longrightarrow> 0 \<le> k \<Longrightarrow> \<forall>nm k. m' nm = Some k \<longrightarrow> 0 \<le> k"
proof -
  from d show "dom m' = dom m"
  proof
    assume "m' = m" then show ?thesis by simp
  next
    assume a: "m' = incr m x" show ?thesis unfolding a by (rule dom_incr)
  qed
  show "m nm = Some k \<Longrightarrow> \<exists>k'. m' nm = Some k' \<and> k \<le> k'"
  proof -
    assume k: "m nm = Some k"
    from d show ?thesis
    proof
      assume "m' = m" with k show ?thesis by simp
    next
      assume a: "m' = incr m x" show ?thesis unfolding a using k by (rule incr_mono)
    qed
  qed
  show "\<forall>nm k. m nm = Some k \<longrightarrow> 0 \<le> k \<Longrightarrow> \<forall>nm k. m' nm = Some k \<longrightarrow> 0 \<le> k"
  proof -
    assume p: "\<forall>nm k. m nm = Some k \<longrightarrow> 0 \<le> k"
    from d show ?thesis
    proof
      assume "m' = m" with p show ?thesis by simp
    next
      assume a: "m' = incr m x"
      show ?thesis unfolding a
      proof (intro allI impI)
        fix nm k assume "incr m x nm = Some k"
        with p show "0 \<le> k" by (rule incr_nonneg)
      qed
    qed
  qed
qed

text \<open>Every line step keeps the keys of every count dictionary, keeps the counts
  non-negative and never lowers one.\<close>

lemma update_line_counts:
  assumes wf: "wf_refs t" and i: "i < nlines t"
    and r: "update_line t tid c (i, s) = (e, t')" and j: "j < nlines t"
  shows "dom (in_counts t' j) = dom (in_counts t j)"
    and "dom (out_counts t' j) = dom (out_counts t j)"
    and "in_counts t j nm = Some k \<Longrightarrow> \<exists>k'. in_counts t' j nm = Some k' \<and> k \<le> k'"
    and "out_counts t j nm = Some k \<Longrightarrow> \<exists>k'. out_counts t' j nm = Some k' \<and> k \<le> k'"
    and "\<forall>nm k. in_counts t j nm = Some k \<longrightarrow> 0 \<le> k \<Longrightarrow>
         \<forall>nm k. in_counts t' j nm = Some k \<longrightarrow> 0 \<le> k"
    and "\<forall>nm k. out_counts t j nm = Some k \<longrightarrow> 0 \<le> k \<Longrightarrow>
         \<forall>nm k. out_counts t' j nm = Some k \<longrightarrow> 0 \<le> k"
proof -
  note v = update_line_views [OF wf i r j]
  have vi: "in_counts t' j = in_counts t j \<or> in_counts t' j = incr (in_counts t j) (class_name_dict t c)"
    unfolding v(2) by (cases "j = i") simp_all
  have vo: "out_counts t' j = out_counts t j \<or> out_counts t' j = incr (out_counts t j) (class_name_dict t c)"
    unfolding v(3) by (cases "j = i") simp_all
  show "dom (in_counts t' j) = dom (in_counts t j)" by (rule incr_or_same(1) [OF vi])
  show "dom (out_counts t' j) = dom (out_counts t j)" by (rule incr_or_same(1) [OF vo])
  show "in_counts t j nm = Some k \<Longrightarrow> \<exists>k'. in_counts t' j nm = Some k' \<and> k \<le> k'"
    by (rule incr_or_same(2) [OF vi])
  show "out_counts t j nm = Some k \<Longrightarrow> \<exists>k'. out_counts t' j nm = Some k' \<and> k \<le> k'"
    by (rule incr_or_same(2) [OF vo])
  show "\<forall>nm k. in_counts t j nm = Some k \<longrightarrow> 0 \<le> k \<Longrightarrow>
         \<forall>nm k. in_counts t' j nm = Some k \<longrightarrow> 0 \<le> k"
    by (rule incr_or_same(3) [OF vi])
  show "\<forall>nm k. out_counts t j nm = Some k \<longrightarrow> 0 \<le> k \<Longrightarrow>
         \<forall>nm k. out_counts t' j nm = Some k \<longrightarrow> 0 \<le> k"
    by (rule incr_or_same(3) [OF vo])
qed

lemma update_line_wf_counts:
  assumes wf: "wf_refs t" and wc: "wf_counts t" and i: "i < nlines t"
    and r: "update_line t tid c (i, s) = (e, t')"
  shows "wf_counts t'" and "known_names t' = known_names t"
    and "countable_class t' x = countable_class t x"
proof -
  from r have sh: "same_shape t t'" by (rule update_line_shape)
  then have n: "nlines t' = nlines t" by (rule same_shape_nlines)
  from sh have cn: "class_name_dict t' = class_name_dict t" and ci: "class_id t' = class_id t"
    by (simp_all add: same_shape_def)
  note tm = update_line_template [OF wf i r]
  from same_shape_known_names [OF sh tm] show kn: "known_names t' = known_names t" .
  have cc: "\<And>y. countable_class t' y = countable_class t y"
    unfolding countable_class_def cn kn by (rule refl)
  show "countable_class t' x = countable_class t x" by (rule cc)
  from wc have fin: "finite (known_names t)"
    and cls: "\<forall>c \<in> set (class_id t). countable_class t c"
    and ln: "\<And>j. j < nlines t \<Longrightarrow>
        dom (in_counts t j) = known_names t \<and> dom (out_counts t j) = known_names t \<and>
        (\<forall>nm k. in_counts t j nm = Some k \<longrightarrow> 0 \<le> k) \<and>
        (\<forall>nm k. out_counts t j nm = Some k \<longrightarrow> 0 \<le> k)"
    unfolding wf_counts_def by blast+
  have "\<forall>j < nlines t'.
        dom (in_counts t' j) = known_names t' \<and> dom (out_counts t' j) = known_names t' \<and>
        (\<forall>nm k. in_counts t' j nm = Some k \<longrightarrow> 0 \<le> k) \<and>
        (\<forall>nm k. out_counts t' j nm = Some k \<longrightarrow> 0 \<le> k)"
    unfolding n kn
  proof (intro allI impI)
    fix j assume j: "j < nlines t"
    note u = update_line_counts [OF wf i r j]
    from ln [OF j] have l: "dom (in_counts t j) = known_names t"
      "dom (out_counts t j) = known_names t"
      "\<forall>nm k. in_counts t j nm = Some k \<longrightarrow> 0 \<le> k"
      "\<forall>nm k. out_counts t j nm = Some k \<longrightarrow> 0 \<le> k" by blast+
    from u(1) l(1) have a: "dom (in_counts t' j) = known_names t" by (rule trans)
    from u(2) l(2) have b: "dom (out_counts t' j) = known_names t" by (rule trans)
    from a b u(5) [OF l(3)] u(6) [OF l(4)]
    show "dom (in_counts t' j) = known_names t \<and> dom (out_counts t' j) = known_names t \<and>
        (\<forall>nm k. in_counts t' j nm = Some k \<longrightarrow> 0 \<le> k) \<and>
        (\<forall>nm k. out_counts t' j nm = Some k \<longrightarrow> 0 \<le> k)"
      by (intro conjI)
  qed
  with fin cls show "wf_counts t'"
    unfolding wf_counts_def kn ci by (simp add: cc)
qed

section \<open>Update: the loop over the lines\<close>

lemma countable_classD:
  assumes cc: "countable_class t c" and wc: "wf_counts t" and i: "i < nlines t"
  obtains nm ki ko where "class_name_dict t c = Some nm" "in_counts t i nm = Some ki"
    "out_counts t i nm = Some ko"
proof -
  from cc obtain nm where nm: "class_name_dict t c = Some nm" and kn: "nm \<in> known_names t"
    unfolding countable_class_def by (cases "class_name_dict t c") simp_all
  from wc i have "dom (in_counts t i) = known_names t" "dom (out_counts t i) = known_names t"
    unfolding wf_counts_def by blast+
  with kn have "nm \<in> dom (in_counts t i)" "nm \<in> dom (out_counts t i)" by simp_all
  then obtain ki ko where "in_counts t i nm = Some ki" "out_counts t i nm = Some ko" by blast
  with nm show ?thesis by (rule that)
qed

text \<open>A line step raises nothing when the identity has a log entry if the line knows it,
  and its class can be counted if it flips.\<close>

lemma update_line_ok:
  assumes wf: "wf_refs t" and wc: "wf_counts t" and i: "i < nlines t"
    and r: "update_line t tid c (i, s) = (e, t')"
    and log: "side_map t i tid \<noteq> None \<longrightarrow> tracker_line t tid \<noteq> None"
    and cls: "side_map t i tid = Some (\<not> s) \<longrightarrow> countable_class t c"
  shows "e = None"
proof (cases "side_map t i tid = Some (\<not> s)")
  case False
  with update_line_error [OF wf i r] show ?thesis by simp
next
  case True
  with log have l: "tracker_line t tid \<noteq> None" by simp
  from True cls have "countable_class t c" by simp
  from this wc i obtain nm ki ko where nm: "class_name_dict t c = Some nm"
    "in_counts t i nm = Some ki" "out_counts t i nm = Some ko" by (rule countable_classD)
  then have "(if s then in_counts t i else out_counts t i) nm \<noteq> None" by simp
  with update_line_error [OF wf i r] l nm(1) show ?thesis by simp
qed

lemma update_line_log_kept:
  assumes wf: "wf_refs t" and i: "i < nlines t"
    and r: "update_line t tid c (i, s) = (e, t')"
    and l: "tracker_line t x \<noteq> None"
  shows "tracker_line t' x \<noteq> None"
  using wf i r l by (cases rule: update_line_cases) auto

lemma update_lines_ok:
  assumes wf: "wf_refs t" and wc: "wf_counts t"
    and d: "distinct (map fst ps)" and b: "\<forall>p \<in> set ps. fst p < nlines t"
    and log: "\<forall>p \<in> set ps. side_map t (fst p) tid \<noteq> None \<longrightarrow> tracker_line t tid \<noteq> None"
    and cls: "\<forall>p \<in> set ps. side_map t (fst p) tid = Some (\<not> snd p) \<longrightarrow> countable_class t c"
  shows "fst (update_lines t tid c ps) = None \<and>
    (\<forall>j < nlines t.
       side_map (snd (update_lines t tid c ps)) j =
         (case map_of ps j of None \<Rightarrow> side_map t j | Some s \<Rightarrow> (side_map t j)(tid \<mapsto> s)) \<and>
       in_counts (snd (update_lines t tid c ps)) j =
         (if map_of ps j = Some True \<and> side_map t j tid = Some False
          then incr (in_counts t j) (class_name_dict t c) else in_counts t j) \<and>
       out_counts (snd (update_lines t tid c ps)) j =
         (if map_of ps j = Some False \<and> side_map t j tid = Some True
          then incr (out_counts t j) (class_name_dict t c) else out_counts t j))"
  using wf wc d b log cls
proof (induction ps arbitrary: t)
  case Nil
  show ?case by simp
next
  case (Cons p ps)
  obtain i s where p: "p = (i, s)" by (cases p)
  obtain e1 t1 where r: "update_line t tid c (i, s) = (e1, t1)"
    by (cases "update_line t tid c (i, s)")
  note wf = Cons.prems(1) and wc = Cons.prems(2)
  from Cons.prems(4) p have i: "i < nlines t" by simp
  from Cons.prems(5) p have log_i: "side_map t i tid \<noteq> None \<longrightarrow> tracker_line t tid \<noteq> None"
    by simp
  from Cons.prems(6) p have cls_i: "side_map t i tid = Some (\<not> s) \<longrightarrow> countable_class t c"
    by simp
  from update_line_ok [OF wf wc i r log_i cls_i] have e1: "e1 = None" .
  from r have sh: "same_shape t t1" by (rule update_line_shape)
  then have n1: "nlines t1 = nlines t" by (rule same_shape_nlines)
  from sh wf have wf1: "wf_refs t1" by (rule same_shape_wf_refs)
  from update_line_wf_counts [OF wf wc i r] have wc1: "wf_counts t1"
    and cc1: "countable_class t1 c = countable_class t c" by blast+
  from sh have cn: "class_name_dict t1 = class_name_dict t" by (simp add: same_shape_def)
  from Cons.prems(3) p have notin: "i \<notin> fst ` set ps" and d1: "distinct (map fst ps)" by simp_all
  then have mi: "map_of ps i = None" by (simp add: map_of_eq_None_iff)
  have fr: "side_map t1 j = side_map t j \<and> in_counts t1 j = in_counts t j \<and>
      out_counts t1 j = out_counts t j" if "j < nlines t" "j \<noteq> i" for j
    using update_line_views [OF wf i r that(1)] that(2) by simp
  have at_i: "side_map t1 i = (side_map t i)(tid \<mapsto> s) \<and>
      in_counts t1 i = (if s \<and> side_map t i tid = Some False
          then incr (in_counts t i) (class_name_dict t c) else in_counts t i) \<and>
      out_counts t1 i = (if \<not> s \<and> side_map t i tid = Some True
          then incr (out_counts t i) (class_name_dict t c) else out_counts t i)"
    using update_line_views [OF wf i r i] e1 by (cases s) simp_all
  have b1: "\<forall>p \<in> set ps. fst p < nlines t1" using Cons.prems(4) n1 by simp
  have same1: "side_map t1 (fst q) = side_map t (fst q)" if "q \<in> set ps" for q
  proof -
    from that Cons.prems(4) have "fst q < nlines t" by simp
    moreover from that notin have "fst q \<noteq> i" by force
    ultimately show ?thesis using fr by blast
  qed
  have log1: "\<forall>q \<in> set ps. side_map t1 (fst q) tid \<noteq> None \<longrightarrow> tracker_line t1 tid \<noteq> None"
  proof (intro ballI impI)
    fix q assume q: "q \<in> set ps" and "side_map t1 (fst q) tid \<noteq> None"
    then have "side_map t (fst q) tid \<noteq> None" by (simp add: same1)
    with Cons.prems(5) q have "tracker_line t tid \<noteq> None" by auto
    with wf i r show "tracker_line t1 tid \<noteq> None" by (rule update_line_log_kept)
  qed
  have cls1: "\<forall>q \<in> set ps. side_map t1 (fst q) tid = Some (\<not> snd q) \<longrightarrow> countable_class t1 c"
  proof (intro ballI impI)
    fix q assume q: "q \<in> set ps" and "side_map t1 (fst q) tid = Some (\<not> snd q)"
    then have "side_map t (fst q) tid = Some (\<not> snd q)" by (simp add: same1)
    with Cons.prems(6) q have "countable_class t c" by auto
    then show "countable_class t1 c" by (simp add: cc1)
  qed
  have ul: "update_lines t tid c (p # ps) = update_lines t1 tid c ps"
    by (simp add: p r e1)
  note ih = Cons.IH [OF wf1 wc1 d1 b1 log1 cls1]
  let ?t' = "snd (update_lines t1 tid c ps)"
  from ih have e: "fst (update_lines t1 tid c ps) = None" by blast
  have "side_map ?t' j =
         (case map_of (p # ps) j of None \<Rightarrow> side_map t j | Some s \<Rightarrow> (side_map t j)(tid \<mapsto> s)) \<and>
       in_counts ?t' j =
         (if map_of (p # ps) j = Some True \<and> side_map t j tid = Some False
          then incr (in_counts t j) (class_name_dict t c) else in_counts t j) \<and>
       out_counts ?t' j =
         (if map_of (p # ps) j = Some False \<and> side_map t j tid = Some True
          then incr (out_counts t j) (class_name_dict t c) else out_counts t j)"
    if j: "j < nlines t" for j
  proof -
    from ih j n1 have v: "side_map ?t' j =
         (case map_of ps j of None \<Rightarrow> side_map t1 j | Some s \<Rightarrow> (side_map t1 j)(tid \<mapsto> s))"
       "in_counts ?t' j =
         (if map_of ps j = Some True \<and> side_map t1 j tid = Some False
          then incr (in_counts t1 j) (class_name_dict t1 c) else in_counts t1 j)"
       "out_counts ?t' j =
         (if map_of ps j = Some False \<and> side_map t1 j tid = Some True
          then incr (out_counts t1 j) (class_name_dict t1 c) else out_counts t1 j)"
      by simp_all
    show ?thesis
    proof (cases "j = i")
      case True
      from v at_i show ?thesis unfolding True by (simp add: mi p)
    next
      case False
      from fr [OF j False] have f: "side_map t1 j = side_map t j" "in_counts t1 j = in_counts t j"
        "out_counts t1 j = out_counts t j" by blast+
      from False have m: "map_of (p # ps) j = map_of ps j" by (simp add: p)
      from v [unfolded f cn] show ?thesis unfolding m by blast
    qed
  qed
  with e show ?case unfolding ul by blast
qed

section \<open>Update: one observation against all lines\<close>

lemma enumerate_triggers:
  "map fst (enumerate (triggers_batch t pt)) = [0..<nlines t]"
  "distinct (map fst (enumerate (triggers_batch t pt)))"
  "\<forall>p \<in> set (enumerate (triggers_batch t pt)). fst p < nlines t"
  "j < nlines t \<Longrightarrow>
     map_of (enumerate (triggers_batch t pt)) j = Some (is_in (vector_batch t ! j) pt)"
proof -
  let ?ts = "triggers_batch t pt"
  have len: "length ?ts = nlines t" by (simp add: triggers_batch_def nlines_def)
  show m: "map fst (enumerate ?ts) = [0..<nlines t]"
    by (simp add: enumerate_def len)
  show "distinct (map fst (enumerate ?ts))" unfolding m by simp
  have im: "fst ` set (enumerate ?ts) = set [0..<nlines t]"
    unfolding m [symmetric] by simp
  show "\<forall>p \<in> set (enumerate ?ts). fst p < nlines t"
  proof
    fix p assume "p \<in> set (enumerate ?ts)"
    then have "fst p \<in> fst ` set (enumerate ?ts)" by (rule imageI)
    with im show "fst p < nlines t" by simp
  qed
  show "map_of (enumerate ?ts) j = Some (is_in (vector_batch t ! j) pt)" if j: "j < nlines t"
  proof -
    from j len have "map_of (zip [0..<length ?ts] ?ts) ([0..<length ?ts] ! j) = Some (?ts ! j)"
      by (intro map_of_zip_nth) simp_all
    with j len show ?thesis
      by (simp add: enumerate_def triggers_batch_def nlines_def)
  qed
qed

lemma update_lines_wf_counts:
  assumes wf: "wf_refs t" and wc: "wf_counts t" and b: "\<forall>p \<in> set ps. fst p < nlines t"
  shows "wf_counts (snd (update_lines t tid c ps)) \<and>
    known_names (snd (update_lines t tid c ps)) = known_names t"
  using wf wc b
proof (induction ps arbitrary: t)
  case Nil
  then show ?case by simp
next
  case (Cons p ps)
  obtain i s where p: "p = (i, s)" by (cases p)
  obtain e1 t1 where r: "update_line t tid c (i, s) = (e1, t1)"
    by (cases "update_line t tid c (i, s)")
  from Cons.prems(3) p have i: "i < nlines t" by simp
  from r have sh: "same_shape t t1" by (rule update_line_shape)
  then have n1: "nlines t1 = nlines t" by (rule same_shape_nlines)
  from sh Cons.prems(1) have wf1: "wf_refs t1" by (rule same_shape_wf_refs)
  from update_line_wf_counts [OF Cons.prems(1) Cons.prems(2) i r]
  have wc1: "wf_counts t1" and kn1: "known_names t1 = known_names t" by blast+
  from Cons.prems(3) n1 have b1: "\<forall>p \<in> set ps. fst p < nlines t1" by simp
  show ?case
  proof (cases e1)
    case None
    then have "update_lines t tid c (p # ps) = update_lines t1 tid c ps" by (simp add: p r)
    with Cons.IH [OF wf1 wc1 b1] kn1 show ?thesis by simp
  next
    case (Some e)
    then have "update_lines t tid c (p # ps) = (Some e, t1)" by (simp add: p r)
    with wc1 kn1 show ?thesis by simp
  qed
qed

text \<open>An observation of a known identity adds no key to any side map nor to the log,
  whatever its outcome.\<close>

lemma update_line_seen_doms:
  assumes wf: "wf_refs t" and i: "i < nlines t"
    and r: "update_line t tid c (i, s) = (e, t')"
    and seen: "side_map t i tid \<noteq> None" and l: "tracker_line t tid \<noteq> None"
  shows "\<forall>j < nlines t. dom (side_map t' j) = dom (side_map t j)"
    and "dom (tracker_line t') = dom (tracker_line t)"
proof -
  from seen have d: "insert tid (dom (side_map t i)) = dom (side_map t i)" by auto
  show "\<forall>j < nlines t. dom (side_map t' j) = dom (side_map t j)"
  proof (intro allI impI)
    fix j assume j: "j < nlines t"
    show "dom (side_map t' j) = dom (side_map t j)"
      unfolding update_line_views(1) [OF wf i r j] using d by (cases "j = i") simp_all
  qed
  from l have dl: "insert tid (dom (tracker_line t)) = dom (tracker_line t)" by auto
  from wf i r seen l dl show "dom (tracker_line t') = dom (tracker_line t)"
    by (cases rule: update_line_cases) simp_all
qed

lemma update_lines_seen_doms:
  assumes wf: "wf_refs t" and b: "\<forall>p \<in> set ps. fst p < nlines t"
    and seen: "\<forall>j < nlines t. side_map t j tid \<noteq> None" and l: "tracker_line t tid \<noteq> None"
  shows "(\<forall>j < nlines t. dom (side_map (snd (update_lines t tid c ps)) j) = dom (side_map t j)) \<and>
    dom (tracker_line (snd (update_lines t tid c ps))) = dom (tracker_line t)"
  using wf b seen l
proof (induction ps arbitrary: t)
  case Nil
  then show ?case by simp
next
  case (Cons p ps)
  obtain i s where p: "p = (i, s)" by (cases p)
  obtain e1 t1 where r: "update_line t tid c (i, s) = (e1, t1)"
    by (cases "update_line t tid c (i, s)")
  from Cons.prems(2) p have i: "i < nlines t" by simp
  from Cons.prems(3) i have si: "side_map t i tid \<noteq> None" by simp
  note st = update_line_seen_doms [OF Cons.prems(1) i r si Cons.prems(4)]
  from r have sh: "same_shape t t1" by (rule update_line_shape)
  then have n1: "nlines t1 = nlines t" by (rule same_shape_nlines)
  from sh Cons.prems(1) have wf1: "wf_refs t1" by (rule same_shape_wf_refs)
  from Cons.prems(2) n1 have b1: "\<forall>p \<in> set ps. fst p < nlines t1" by simp
  have seen1: "\<forall>j < nlines t1. side_map t1 j tid \<noteq> None"
  proof (intro allI impI)
    fix j assume "j < nlines t1"
    with n1 have j: "j < nlines t" by simp
    with Cons.prems(3) have "tid \<in> dom (side_map t j)" by auto
    with st(1) j have "tid \<in> dom (side_map t1 j)" by simp
    then show "side_map t1 j tid \<noteq> None" by auto
  qed
  from Cons.prems(4) have "tid \<in> dom (tracker_line t)" by auto
  with st(2) have "tid \<in> dom (tracker_line t1)" by simp
  then have l1: "tracker_line t1 tid \<noteq> None" by auto
  show ?case
  proof (cases e1)
    case None
    then have "update_lines t tid c (p # ps) = update_lines t1 tid c ps" by (simp add: p r)
    with Cons.IH [OF wf1 b1 seen1 l1] st n1 show ?thesis by simp
  next
    case (Some e)
    then have "update_lines t tid c (p # ps) = (Some e, t1)" by (simp add: p r)
    with st show ?thesis by simp
  qed
qed

text \<open>The log after the first sighting of an identity by all the lines of \<open>ps\<close>.\<close>

lemma update_lines_log_new:
  assumes wf: "wf_refs t" and d: "distinct (map fst ps)"
    and b: "\<forall>p \<in> set ps. fst p < nlines t"
    and new: "\<forall>p \<in> set ps. side_map t (fst p) tid = None"
  shows "tracker_line (snd (update_lines t tid c ps)) =
    (if ps = [] then tracker_line t else (tracker_line t)(tid \<mapsto> [c]))"
  using wf d b new
proof (induction ps arbitrary: t)
  case Nil
  then show ?case by simp
next
  case (Cons p ps)
  obtain i s where p: "p = (i, s)" by (cases p)
  obtain e1 t1 where r: "update_line t tid c (i, s) = (e1, t1)"
    by (cases "update_line t tid c (i, s)")
  note wf = Cons.prems(1)
  from Cons.prems(3) p have i: "i < nlines t" by simp
  from Cons.prems(4) p have ni: "side_map t i tid = None" by simp
  from update_line_error [OF wf i r] ni have e1: "e1 = None" by simp
  from update_line_log [OF wf i r] ni have l1: "tracker_line t1 = (tracker_line t)(tid \<mapsto> [c])"
    by simp
  from r have sh: "same_shape t t1" by (rule update_line_shape)
  then have n1: "nlines t1 = nlines t" by (rule same_shape_nlines)
  from sh wf have wf1: "wf_refs t1" by (rule same_shape_wf_refs)
  from Cons.prems(3) n1 have b1: "\<forall>p \<in> set ps. fst p < nlines t1" by simp
  from Cons.prems(2) p have notin: "i \<notin> fst ` set ps" and d1: "distinct (map fst ps)" by simp_all
  have new1: "\<forall>q \<in> set ps. side_map t1 (fst q) tid = None"
  proof
    fix q assume q: "q \<in> set ps"
    with Cons.prems(3) have j: "fst q < nlines t" by simp
    from q notin have "fst q \<noteq> i" by force
    with update_line_views(1) [OF wf i r j] have "side_map t1 (fst q) = side_map t (fst q)" by simp
    with Cons.prems(4) q show "side_map t1 (fst q) tid = None" by simp
  qed
  have ul: "update_lines t tid c (p # ps) = update_lines t1 tid c ps" by (simp add: p r e1)
  from Cons.IH [OF wf1 d1 b1 new1]
  have "tracker_line (snd (update_lines t1 tid c ps)) = (tracker_line t)(tid \<mapsto> [c])"
    by (cases "ps = []") (simp_all add: l1 fun_eq_iff)
  then show ?case unfolding ul by simp
qed

section \<open>The invariant is kept\<close>

lemma update_detection_inv:
  assumes inv: "tracker_inv t"
  shows "tracker_inv (snd (update_detection t d))"
proof -
  obtain box cf c tido where d: "d = (box, cf, c, tido)" by (cases d)
  from inv have wf: "wf_refs t" and ids: "same_ids t" and wc: "wf_counts t"
    by (simp_all add: tracker_inv_def)
  show ?thesis
  proof (cases tido)
    case None
    with d inv show ?thesis by simp
  next
    case (Some tid)
    let ?ps = "enumerate (triggers_batch t (mean_anchor box))"
    let ?t' = "snd (update_lines t tid c ?ps)"
    from d Some have ud: "update_detection t d = update_lines t tid c ?ps" by simp
    note en = enumerate_triggers [where t = t and pt = "mean_anchor box"]
    have "update_lines t tid c ?ps = (fst (update_lines t tid c ?ps), ?t')" by simp
    then have sh: "same_shape t ?t'" by (rule update_lines_shape)
    then have n': "nlines ?t' = nlines t" by (rule same_shape_nlines)
    from sh wf have wf': "wf_refs ?t'" by (rule same_shape_wf_refs)
    from update_lines_wf_counts [OF wf wc en(3)] have wc': "wf_counts ?t'" by blast
    from ids have dm: "\<And>j. j < nlines t \<Longrightarrow> dom (side_map t j) = dom (tracker_line t)"
      by (simp add: same_ids_def)
    have ids': "same_ids ?t'"
    proof (cases "tracker_line t tid")
      case (Some l)
      then have l: "tracker_line t tid \<noteq> None" by simp
      have seen: "\<forall>j < nlines t. side_map t j tid \<noteq> None"
      proof (intro allI impI)
        fix j assume "j < nlines t"
        from dm [OF this] Some have "tid \<in> dom (side_map t j)" by auto
        then show "side_map t j tid \<noteq> None" by auto
      qed
      from update_lines_seen_doms [OF wf en(3) seen l, of c] dm
      show ?thesis unfolding same_ids_def n' by simp
    next
      case None
      have new: "side_map t j tid = None" if "j < nlines t" for j
      proof -
        from dm [OF that] None have "tid \<notin> dom (side_map t j)" by auto
        then show ?thesis by auto
      qed
      with en(3) have newp: "\<forall>p \<in> set ?ps. side_map t (fst p) tid = None" by simp
      then have log: "\<forall>p \<in> set ?ps. side_map t (fst p) tid \<noteq> None \<longrightarrow> tracker_line t tid \<noteq> None"
        and cls: "\<forall>p \<in> set ?ps. side_map t (fst p) tid = Some (\<not> snd p) \<longrightarrow> countable_class t c"
        by simp_all
      note ok = update_lines_ok [OF wf wc en(2) en(3) log cls]
      note lg = update_lines_log_new [OF wf en(2) en(3) newp, of c]
      show ?thesis unfolding same_ids_def n'
      proof (intro allI impI)
        fix j assume j: "j < nlines t"
        have "?ps \<noteq> []"
        proof
          assume "?ps = []"
          with en(1) have "[0..<nlines t] = []" by simp
          with j show False by simp
        qed
        with lg have tl: "tracker_line ?t' = (tracker_line t)(tid \<mapsto> [c])" by simp
        from ok j have "side_map ?t' j =
          (case map_of ?ps j of None \<Rightarrow> side_map t j | Some s \<Rightarrow> (side_map t j)(tid \<mapsto> s))"
          by blast
        then have sm: "side_map ?t' j =
          (side_map t j)(tid \<mapsto> is_in (vector_batch t ! j) (mean_anchor box))"
          unfolding en(4) [OF j] by simp
        show "dom (side_map ?t' j) = dom (tracker_line ?t')"
          unfolding sm tl using dm [OF j] by simp
      qed
    qed
    from wf' ids' wc' show ?thesis unfolding ud tracker_inv_def by blast
  qed
qed

lemma update_inv: "tracker_inv t \<Longrightarrow> tracker_inv (snd (update t ds))"
proof (induction ds arbitrary: t)
  case Nil
  then show ?case by simp
next
  case (Cons d ds)
  obtain e1 t1 where r: "update_detection t d = (e1, t1)" by (cases "update_detection t d")
  from update_detection_inv [OF Cons.prems, of d] r have inv1: "tracker_inv t1" by simp
  show ?case
  proof (cases e1)
    case None
    with r have "update t (d # ds) = update t1 ds" by simp
    with Cons.IH [OF inv1] show ?thesis by simp
  next
    case (Some e)
    with r have "update t (d # ds) = (Some e, t1)" by simp
    with inv1 show ?thesis by simp
  qed
qed

lemma run_inv: "tracker_inv t \<Longrightarrow> tracker_inv (run t bs)"
proof (induction bs arbitrary: t)
  case Nil
  then show ?case by simp
next
  case (Cons ds bs)
  from Cons.prems have "tracker_inv (snd (update t ds))" by (rule update_inv)
  then have "tracker_inv (run (snd (update t ds)) bs)" by (rule Cons.IH)
  then show ?case by simp
qed

text \<open>The state in which an observation of a call is processed is itself the state after a
  session: the session so far, followed by a call with the observations before it.\<close>

lemma update_append:
  "update t (ds @ ds') =
     (case update t ds of (Some e, t') \<Rightarrow> (Some e, t') | (None, t') \<Rightarrow> update t' ds')"
proof (induction ds arbitrary: t)
  case Nil
  show ?case by simp
next
  case (Cons d ds)
  obtain e1 t1 where r: "update_detection t d = (e1, t1)" by (cases "update_detection t d")
  show ?case
  proof (cases e1)
    case None
    with r Cons.IH [of t1] show ?thesis by simp
  next
    case (Some e)
    with r show ?thesis by simp
  qed
qed

lemma run_append: "run t (bs @ bs') = run (run t bs) bs'"
  by (induction bs arbitrary: t) simp_all

section \<open>States of a session\<close>

lemma during_run: "during t0 bs ds = run t0 (bs @ [ds])"
  by (simp add: during_def run_append)

lemma during_step:
  "fst (update (run t0 bs) ds) = None \<Longrightarrow>
   update (run t0 bs) (ds @ d # ds') =
     (case update_detection (during t0 bs ds) d of
        (Some e, t') \<Rightarrow> (Some e, t') | (None, t') \<Rightarrow> update t' ds')"
  by (cases "update (run t0 bs) ds") (simp add: update_append during_def)

lemma during_init:
  assumes init: "LineCounter_init start_pts end_pts cid names = Inr t0"
  shows "tracker_inv (during t0 bs ds)" and "same_shape t0 (during t0 bs ds)"
    and "nlines (during t0 bs ds) = length start_pts"
    and "class_name_dict (during t0 bs ds) = names"
    and "class_id (during t0 bs ds) = cid"
proof -
  from init have "tracker_inv t0" by (rule init_inv)
  then have "tracker_inv (run t0 (bs @ [ds]))" by (rule run_inv)
  then show "tracker_inv (during t0 bs ds)" by (simp add: during_run)
  have "same_shape t0 (run t0 (bs @ [ds]))" by (rule run_shape)
  then show sh: "same_shape t0 (during t0 bs ds)" by (simp add: during_run)
  from init_result [OF init] have r: "nlines t0 = length start_pts" "class_name_dict t0 = names"
    "class_id t0 = cid" by blast+
  from sh r(1) show "nlines (during t0 bs ds) = length start_pts" by (simp add: same_shape_nlines)
  from sh r(2) show "class_name_dict (during t0 bs ds) = names" by (simp add: same_shape_def)
  from sh r(3) show "class_id (during t0 bs ds) = cid" by (simp add: same_shape_def)
qed

section \<open>Update: one observation, when nothing is raised\<close>

lemma enumerate_triggers_mem:
  assumes p: "p \<in> set (enumerate (triggers_batch t pt))"
  shows "fst p < nlines t" and "snd p = is_in (vector_batch t ! fst p) pt"
proof -
  note en = enumerate_triggers [where t = t and pt = pt]
  from en(3) p show j: "fst p < nlines t" by blast
  from p have "(fst p, snd p) \<in> set (enumerate (triggers_batch t pt))" by simp
  with en(2) have "map_of (enumerate (triggers_batch t pt)) (fst p) = Some (snd p)"
    by (simp only: map_of_eq_Some_iff)
  with en(4) [OF j] show "snd p = is_in (vector_batch t ! fst p) pt" by simp
qed

lemma update_detection_ok:
  assumes inv: "tracker_inv t"
    and cls: "(\<exists>i < nlines t. is_flip t (box, cf, c, Some tid) i) \<longrightarrow> countable_class t c"
  shows "fst (update_detection t (box, cf, c, Some tid)) = None"
    and "j < nlines t \<Longrightarrow>
      side_map (snd (update_detection t (box, cf, c, Some tid))) j =
        (side_map t j)(tid \<mapsto> is_in (vector_batch t ! j) (mean_anchor box))"
    and "j < nlines t \<Longrightarrow>
      in_counts (snd (update_detection t (box, cf, c, Some tid))) j =
        (if is_in (vector_batch t ! j) (mean_anchor box) \<and> side_map t j tid = Some False
         then incr (in_counts t j) (class_name_dict t c) else in_counts t j)"
    and "j < nlines t \<Longrightarrow>
      out_counts (snd (update_detection t (box, cf, c, Some tid))) j =
        (if \<not> is_in (vector_batch t ! j) (mean_anchor box) \<and> side_map t j tid = Some True
         then incr (out_counts t j) (class_name_dict t c) else out_counts t j)"
proof -
  let ?pt = "mean_anchor box"
  let ?ps = "enumerate (triggers_batch t ?pt)"
  from inv have wf: "wf_refs t" and ids: "same_ids t" and wc: "wf_counts t"
    by (simp_all add: tracker_inv_def)
  note en = enumerate_triggers [where t = t and pt = ?pt]
  have log: "\<forall>p \<in> set ?ps. side_map t (fst p) tid \<noteq> None \<longrightarrow> tracker_line t tid \<noteq> None"
  proof (intro ballI impI)
    fix p assume p: "p \<in> set ?ps" and s: "side_map t (fst p) tid \<noteq> None"
    from enumerate_triggers_mem(1) [OF p] ids
    have "dom (side_map t (fst p)) = dom (tracker_line t)" by (simp add: same_ids_def)
    moreover from s have "tid \<in> dom (side_map t (fst p))" by auto
    ultimately have "tid \<in> dom (tracker_line t)" by simp
    then show "tracker_line t tid \<noteq> None" by auto
  qed
  have cl: "\<forall>p \<in> set ?ps. side_map t (fst p) tid = Some (\<not> snd p) \<longrightarrow> countable_class t c"
  proof (intro ballI impI)
    fix p assume p: "p \<in> set ?ps" and s: "side_map t (fst p) tid = Some (\<not> snd p)"
    note m = enumerate_triggers_mem [OF p]
    from s m(2) have "is_flip t (box, cf, c, Some tid) (fst p)" by simp
    with m(1) cls show "countable_class t c" by blast
  qed
  note ok = update_lines_ok [OF wf wc en(2) en(3) log cl]
  have ud: "update_detection t (box, cf, c, Some tid) = update_lines t tid c ?ps" by simp
  from ok show "fst (update_detection t (box, cf, c, Some tid)) = None" unfolding ud by blast
  show "side_map (snd (update_detection t (box, cf, c, Some tid))) j =
        (side_map t j)(tid \<mapsto> is_in (vector_batch t ! j) (mean_anchor box))" if j: "j < nlines t"
  proof -
    from ok j have "side_map (snd (update_lines t tid c ?ps)) j =
      (case map_of ?ps j of None \<Rightarrow> side_map t j | Some s \<Rightarrow> (side_map t j)(tid \<mapsto> s))" by blast
    then show ?thesis unfolding ud en(4) [OF j] by simp
  qed
  show "in_counts (snd (update_detection t (box, cf, c, Some tid))) j =
        (if is_in (vector_batch t ! j) (mean_anchor box) \<and> side_map t j tid = Some False
         then incr (in_counts t j) (class_name_dict t c) else in_counts t j)" if j: "j < nlines t"
  proof -
    from ok j have "in_counts (snd (update_lines t tid c ?ps)) j =
      (if map_of ?ps j = Some True \<and> side_map t j tid = Some False
          then incr (in_counts t j) (class_name_dict t c) else in_counts t j)" by blast
    then show ?thesis unfolding ud en(4) [OF j] by simp
  qed
  show "out_counts (snd (update_detection t (box, cf, c, Some tid))) j =
        (if \<not> is_in (vector_batch t ! j) (mean_anchor box) \<and> side_map t j tid = Some True
         then incr (out_counts t j) (class_name_dict t c) else out_counts t j)" if j: "j < nlines t"
  proof -
    from ok j have "out_counts (snd (update_lines t tid c ?ps)) j =
      (if map_of ?ps j = Some False \<and> side_map t j tid = Some True
          then incr (out_counts t j) (class_name_dict t c) else out_counts t j)" by blast
    then show ?thesis unfolding ud en(4) [OF j] by simp
  qed
qed

lemma car_tracker_seen:
  "during car_tracker [[((-6, 49, -4, 51), 0.9, 2, Some 7)]] [] =
     car_tracker\<lparr>tracker_line := [7 \<mapsto> [2]], state_dicts := [Map.empty, [7 \<mapsto> False]]\<rparr>"
  by (simp add: during_def enumerate_def triggers_batch_def update_line_def getitem_def
      is_in_def car_tracker_def)

section \<open>Counts never decrease\<close>







section \<open>The log of crossed lines\<close>

lemma enumerate_triggers_map:
  "enumerate (triggers_batch t pt) = map (\<lambda>j. (j, is_in (vector_batch t ! j) pt)) [0..<nlines t]"
proof (rule nth_equalityI)
  show "length (enumerate (triggers_batch t pt)) =
    length (map (\<lambda>j. (j, is_in (vector_batch t ! j) pt)) [0..<nlines t])"
    by (simp add: enumerate_def triggers_batch_def nlines_def)
next
  fix j assume "j < length (enumerate (triggers_batch t pt))"
  then have j: "j < length (vector_batch t)" by (simp add: enumerate_def triggers_batch_def)
  then show "enumerate (triggers_batch t pt) ! j =
    map (\<lambda>j. (j, is_in (vector_batch t ! j) pt)) [0..<nlines t] ! j"
    by (simp add: enumerate_def triggers_batch_def nlines_def)
qed



section \<open>Update: when an observation raises\<close>

lemma flip_exists_enumerate:
  "(\<exists>p \<in> set (enumerate (triggers_batch t (mean_anchor box))).
      side_map t (fst p) tid = Some (\<not> snd p)) =
   (\<exists>i < nlines t. is_flip t (box, cf, c, Some tid) i)"
proof -
  have p: "(side_map t j tid = Some (\<not> is_in (vector_batch t ! j) (mean_anchor box))) =
    is_flip t (box, cf, c, Some tid) j" for j
    by (cases "side_map t j tid") auto
  have "(\<exists>p \<in> set (enumerate (triggers_batch t (mean_anchor box))).
      side_map t (fst p) tid = Some (\<not> snd p)) =
    (\<exists>j \<in> set [0..<nlines t].
      side_map t j tid = Some (\<not> is_in (vector_batch t ! j) (mean_anchor box)))"
    unfolding enumerate_triggers_map by simp
  also have "\<dots> = (\<exists>j \<in> set [0..<nlines t]. is_flip t (box, cf, c, Some tid) j)"
    unfolding p ..
  also have "\<dots> = (\<exists>i < nlines t. is_flip t (box, cf, c, Some tid) i)"
    by auto
  finally show ?thesis .
qed

text \<open>An observation of a known identity whose class cannot be counted raises \<open>KeyError\<close> on
  the first line on which it flips, and raises nothing when it flips on none.\<close>

lemma update_lines_unknown:
  assumes wf: "wf_refs t" and wc: "wf_counts t"
    and b: "\<forall>p \<in> set ps. fst p < nlines t"
    and seen: "\<forall>p \<in> set ps. side_map t (fst p) tid \<noteq> None"
    and nc: "\<not> countable_class t c"
  shows "fst (update_lines t tid c ps) =
    (if \<exists>p \<in> set ps. side_map t (fst p) tid = Some (\<not> snd p) then Some KeyError else None)"
  using b seen
proof (induction ps)
  case Nil
  show ?case by simp
next
  case (Cons p ps)
  obtain i s where p: "p = (i, s)" by (cases p)
  obtain e1 t1 where r: "update_line t tid c (i, s) = (e1, t1)"
    by (cases "update_line t tid c (i, s)")
  from Cons.prems(1) p have i: "i < nlines t" by simp
  from Cons.prems(2) p have si: "side_map t i tid \<noteq> None" by simp
  from Cons.prems have b1: "\<forall>p \<in> set ps. fst p < nlines t"
    and seen1: "\<forall>p \<in> set ps. side_map t (fst p) tid \<noteq> None" by simp_all
  show ?case
  proof (cases "side_map t i tid = Some (\<not> s)")
    case True
    have "case class_name_dict t c of None \<Rightarrow> True
      | Some nm \<Rightarrow> (if s then in_counts t i else out_counts t i) nm = None"
    proof (cases "class_name_dict t c")
      case None
      then show ?thesis by simp
    next
      case (Some nm)
      with nc have "nm \<notin> known_names t" by (simp add: countable_class_def)
      moreover from wc i have "dom (in_counts t i) = known_names t"
        "dom (out_counts t i) = known_names t" unfolding wf_counts_def by blast+
      ultimately have "nm \<notin> dom (in_counts t i)" "nm \<notin> dom (out_counts t i)" by simp_all
      then have "in_counts t i nm = None" "out_counts t i nm = None" by (simp_all add: domIff)
      with Some show ?thesis by simp
    qed
    with update_line_error [OF wf i r] True have "e1 = Some KeyError" by simp
    with r p True show ?thesis by simp
  next
    case False
    with si have same: "side_map t i tid = Some s" by (cases "side_map t i tid") auto
    from wf i have "i < length (tracker_state_batch t)" by (rule wf_refs_len)
    from update_line_same [OF this same] have "update_line t tid c (i, s) = (None, t)" .
    then have "update_lines t tid c (p # ps) = update_lines t tid c ps" by (simp add: p)
    with Cons.IH [OF b1 seen1] False show ?thesis by (simp add: p)
  qed
qed

text \<open>When the loop over the lines raises, it has already stored the new side of the
  identity for the line on which it raised.\<close>

lemma update_lines_error_state:
  assumes wf: "wf_refs t" and d: "distinct (map fst ps)"
    and b: "\<forall>p \<in> set ps. fst p < nlines t"
    and e: "fst (update_lines t tid c ps) = Some e"
  shows "\<exists>p \<in> set ps. side_map t (fst p) tid = Some (\<not> snd p) \<and>
    side_map (snd (update_lines t tid c ps)) (fst p) tid = Some (snd p)"
  using wf d b e
proof (induction ps arbitrary: t)
  case Nil
  then show ?case by simp
next
  case (Cons p ps)
  obtain i s where p: "p = (i, s)" by (cases p)
  obtain e1 t1 where r: "update_line t tid c (i, s) = (e1, t1)"
    by (cases "update_line t tid c (i, s)")
  note wf = Cons.prems(1)
  from Cons.prems(3) p have i: "i < nlines t" by simp
  show ?case
  proof (cases e1)
    case (Some e')
    with r have ul: "update_lines t tid c (p # ps) = (Some e', t1)" by (simp add: p)
    from update_line_error [OF wf i r] Some have fl: "side_map t i tid = Some (\<not> s)"
      by (simp split: if_splits)
    from update_line_views(1) [OF wf i r i] have "side_map t1 i tid = Some s" by simp
    with fl show ?thesis unfolding ul by (simp add: p)
  next
    case None
    with r have ul: "update_lines t tid c (p # ps) = update_lines t1 tid c ps" by (simp add: p)
    from r have sh: "same_shape t t1" by (rule update_line_shape)
    then have n1: "nlines t1 = nlines t" by (rule same_shape_nlines)
    from sh wf have wf1: "wf_refs t1" by (rule same_shape_wf_refs)
    from Cons.prems(2) p have notin: "i \<notin> fst ` set ps" and d1: "distinct (map fst ps)"
      by simp_all
    from Cons.prems(3) n1 have b1: "\<forall>p \<in> set ps. fst p < nlines t1" by simp
    from Cons.prems(4) have e1': "fst (update_lines t1 tid c ps) = Some e" unfolding ul .
    from Cons.IH [OF wf1 d1 b1 e1'] obtain q where q: "q \<in> set ps"
      "side_map t1 (fst q) tid = Some (\<not> snd q)"
      "side_map (snd (update_lines t1 tid c ps)) (fst q) tid = Some (snd q)" by blast
    from q(1) Cons.prems(3) have j: "fst q < nlines t" by simp
    from q(1) notin have "fst q \<noteq> i" by force
    with update_line_views(1) [OF wf i r j] have "side_map t1 (fst q) = side_map t (fst q)" by simp
    with q(2) have "side_map t (fst q) tid = Some (\<not> snd q)" by simp
    with q(1) q(3) show ?thesis unfolding ul by auto
  qed
qed

lemma update_detection_error_state:
  assumes wf: "wf_refs t"
    and e: "fst (update_detection t (box, cf, c, Some tid)) = Some e"
  shows "\<exists>i < nlines t. is_flip t (box, cf, c, Some tid) i \<and>
    side_map (snd (update_detection t (box, cf, c, Some tid))) i tid =
      Some (is_in (vector_batch t ! i) (mean_anchor box))"
proof -
  let ?ps = "enumerate (triggers_batch t (mean_anchor box))"
  note en = enumerate_triggers [where t = t and pt = "mean_anchor box"]
  from e have "fst (update_lines t tid c ?ps) = Some e" by simp
  from update_lines_error_state [OF wf en(2) en(3) this] obtain p where p: "p \<in> set ?ps"
    "side_map t (fst p) tid = Some (\<not> snd p)"
    "side_map (snd (update_lines t tid c ?ps)) (fst p) tid = Some (snd p)" by blast
  note m = enumerate_triggers_mem [OF p(1)]
  from p(2) m(2) have "is_flip t (box, cf, c, Some tid) (fst p)" by simp
  moreover from p(3) m(2) have "side_map (snd (update_detection t (box, cf, c, Some tid))) (fst p) tid =
      Some (is_in (vector_batch t ! fst p) (mean_anchor box))" by simp
  ultimately show ?thesis using m(1) by blast
qed

section \<open>The claims\<close>

text \<open>
  C10. When the list of start points is strictly longer than the list of end points, the
  constructor fails with \<open>IndexError\<close> while pairing \<open>start[i]\<close> with \<open>end[i]\<close>, and no
  tracker is produced. Hence the constructor returns a tracker only when every start point
  has an end point.
\<close>

theorem init_start_longer_than_end:
  "length end_pts < length start_pts \<Longrightarrow>
   LineCounter_init start_pts end_pts cid names = Inl IndexError"
proof -
  assume less: "length end_pts < length start_pts"
  have "\<forall>i \<in> set [0..<length start_pts]. i < length start_pts" by simp
  moreover from less have "\<exists>i \<in> set [0..<length start_pts]. length end_pts \<le> i"
    by (intro bexI [of _ "length end_pts"]) simp_all
  ultimately have "make_vectors start_pts end_pts [] [0..<length start_pts] = Inl IndexError"
    by (rule make_vectors_fail)
  then show ?thesis by (simp add: LineCounter_init_def)
qed

theorem init_start_longer_than_end_witness:
  "length [Point 0 0] < length [Point 0 0, Point 5 5] \<and>
   LineCounter_init [Point 0 0, Point 5 5] [Point 0 0] [2] [2 \<mapsto> ''car''] = Inl IndexError"
  using init_start_longer_than_end [of "[Point 0 0]" "[Point 0 0, Point 5 5]" "[2]" "[2 \<mapsto> ''car'']"]
  by simp

text \<open>
  C4 as stated (construction with an empty list of lines fails with a configuration error and
  returns no tracker) does not hold: \<open>__init__\<close> has no check on the number of lines, its
  loops over \<open>range(len(self.start_points))\<close> run zero times, and a tracker with no lines is
  returned.
\<close>

theorem init_empty_lines_counterexample:
  "map_sum id vector_batch (LineCounter_init [] [] [2] [2 \<mapsto> ''car'']) = Inr []"
  by (simp add: LineCounter_init_def Let_def)

text \<open>
  C4, amended. Construction with an empty list of lines raises nothing on that account: when
  every identifier of \<open>class_id\<close> is a key of \<open>class_name_dict\<close> it returns a tracker with no
  lines, whose three batches are empty.
\<close>

theorem init_empty_lines:
  "set cid \<subseteq> dom names \<Longrightarrow>
   \<exists>t. LineCounter_init [] end_pts cid names = Inr t \<and> nlines t = 0 \<and>
       tracker_state_batch t = [] \<and> in_count_dict_batch t = [] \<and> out_count_dict_batch t = []"
proof -
  assume sub: "set cid \<subseteq> dom names"
  let ?t0 = "\<lparr>vector_batch = [], start_points = [], end_points = end_pts,
                   tracker_state = 0, tracker_line = Map.empty,
                   in_count_dict = 0, out_count_dict = 1,
                   in_count_dict_batch = [], out_count_dict_batch = [],
                   tracker_state_batch = [],
                   in_count = 0, out_count = 0,
                   class_id = cid, class_name_dict = names,
                   state_dicts = [Map.empty], count_dicts = [Map.empty, Map.empty]\<rparr>"
  from sub have "set cid \<subseteq> dom (class_name_dict ?t0)" by simp
  then have "\<exists>t'. zero_counts ?t0 cid = Inr t'" by (rule zero_counts_ok)
  then obtain t1 where z: "zero_counts ?t0 cid = Inr t1" ..
  then have init: "LineCounter_init [] end_pts cid names = Inr t1"
    by (simp add: LineCounter_init_def)
  note r = init_result [OF init]
  from r have ok: "copies_ok t1" and n0: "nlines t1 = length ([] :: Point list)"
    and len: "length (in_count_dict_batch t1) = length ([] :: Point list)" by blast+
  from n0 have n: "nlines t1 = 0" by simp
  from ok have lens: "length (tracker_state_batch t1) = length (in_count_dict_batch t1)"
    "length (out_count_dict_batch t1) = length (in_count_dict_batch t1)"
    unfolding copies_ok_def by blast+
  from len lens have "tracker_state_batch t1 = []" "in_count_dict_batch t1 = []"
    "out_count_dict_batch t1 = []" by simp_all
  with init n show ?thesis by blast
qed

theorem init_empty_lines_witness:
  "set [2] \<subseteq> dom [2 \<mapsto> ''car''] \<and>
   (\<exists>t. LineCounter_init [] [] [2] [2 \<mapsto> ''car''] = Inr t \<and> nlines t = 0 \<and>
       tracker_state_batch t = [] \<and> in_count_dict_batch t = [] \<and> out_count_dict_batch t = [])"
  using init_empty_lines [of "[2]" "[2 \<mapsto> ''car'']" "[]"] by simp

text \<open>
  C6. In every state with the references of a constructed tracker, hence in every state in
  which the body of the loop over the lines runs during any \<open>update\<close> call of any session
  (between two calls as well as in the middle of one, lemmas \<open>update_lines_shape\<close>,
  \<open>update_shape\<close> and \<open>run_shape\<close>), processing an observation against line \<open>i\<close> changes
  neither the side map nor the \<open>in\<close> and \<open>out\<close> counts of any other line \<open>j\<close>, whatever the
  identity, the class and the outcome of the step (an exception included), and it leaves a
  state with the same references. Each line has a side map and two count dictionaries of
  its own: each batch holds one reference per line, every reference points to an existing
  object, and the objects are pairwise distinct, and distinct from the three templates. The
  constructor made each of them with \<open>.copy()\<close>, and \<open>update\<close> never rebinds them.
\<close>

theorem line_independence:
  assumes init: "LineCounter_init start_pts end_pts cid names = Inr t0"
    and sh: "same_shape t0 t"
    and i: "i < length start_pts" and j: "j < length start_pts" and ne: "i \<noteq> j"
  shows "side_map (snd (update_line t tid c (i, s))) j = side_map t j \<and>
    in_counts (snd (update_line t tid c (i, s))) j = in_counts t j \<and>
    out_counts (snd (update_line t tid c (i, s))) j = out_counts t j \<and>
    same_shape t0 (snd (update_line t tid c (i, s))) \<and>
    length (tracker_state_batch t) = length start_pts \<and>
    length (in_count_dict_batch t) = length start_pts \<and>
    length (out_count_dict_batch t) = length start_pts \<and>
    distinct (tracker_state t # tracker_state_batch t) \<and>
    distinct (in_count_dict t # out_count_dict t # in_count_dict_batch t @ out_count_dict_batch t) \<and>
    list_all (\<lambda>a. a < length (state_dicts t)) (tracker_state t # tracker_state_batch t) \<and>
    list_all (\<lambda>a. a < length (count_dicts t))
      (in_count_dict t # out_count_dict t # in_count_dict_batch t @ out_count_dict_batch t)"
proof -
  from init_inv [OF init] have wf0: "wf_refs t0" by (simp add: tracker_inv_def)
  from init_result [OF init] have n0: "nlines t0 = length start_pts" by blast
  from sh wf0 have wf: "wf_refs t" by (rule same_shape_wf_refs)
  from sh n0 have n: "nlines t = length start_pts" by (simp add: same_shape_nlines)
  from i j n have i': "i < nlines t" and j': "j < nlines t" by simp_all
  have r: "update_line t tid c (i, s) =
    (fst (update_line t tid c (i, s)), snd (update_line t tid c (i, s)))" by simp
  note v = update_line_views [OF wf i' r j']
  from r have "same_shape t (snd (update_line t tid c (i, s)))" by (rule update_line_shape)
  with sh have sh': "same_shape t0 (snd (update_line t tid c (i, s)))" by (rule same_shape_trans)
  from wf have d: "distinct (tracker_state t # tracker_state_batch t)"
    "distinct (in_count_dict t # out_count_dict t #
              in_count_dict_batch t @ out_count_dict_batch t)"
    "list_all (\<lambda>a. a < length (state_dicts t)) (tracker_state t # tracker_state_batch t)"
    "list_all (\<lambda>a. a < length (count_dicts t))
      (in_count_dict t # out_count_dict t # in_count_dict_batch t @ out_count_dict_batch t)"
    and len: "length (tracker_state_batch t) = nlines t"
    "length (in_count_dict_batch t) = nlines t"
    "length (out_count_dict_batch t) = nlines t"
    unfolding wf_refs_def by blast+
  from ne have ji: "j \<noteq> i" by simp
  have f: "side_map (snd (update_line t tid c (i, s))) j = side_map t j"
    "in_counts (snd (update_line t tid c (i, s))) j = in_counts t j"
    "out_counts (snd (update_line t tid c (i, s))) j = out_counts t j"
    using v ji by simp_all
  from f sh' len [unfolded n] d show ?thesis by blast
qed

theorem line_independence_witness:
  "LineCounter_init [Point 0 0, Point 10 0] [Point 0 100, Point 10 100] [2] [2 \<mapsto> ''car'']
     = Inr two_lines \<and>
   same_shape two_lines
     (two_lines\<lparr>tracker_line := [7 \<mapsto> [2]],
                state_dicts := [Map.empty, [7 \<mapsto> False], Map.empty]\<rparr>) \<and>
   (0::nat) < length [Point 0 0, Point 10 0] \<and>
   (1::nat) < length [Point 0 0, Point 10 0] \<and> (0::nat) \<noteq> 1 \<and>
   side_map (snd (update_line
     (two_lines\<lparr>tracker_line := [7 \<mapsto> [2]],
                state_dicts := [Map.empty, [7 \<mapsto> False], Map.empty]\<rparr>) 7 2 (0, True))) 1
     = Map.empty \<and>
   in_counts (snd (update_line
     (two_lines\<lparr>tracker_line := [7 \<mapsto> [2]],
                state_dicts := [Map.empty, [7 \<mapsto> False], Map.empty]\<rparr>) 7 2 (0, True))) 1
     = [''car'' \<mapsto> 0] \<and>
   out_counts (snd (update_line
     (two_lines\<lparr>tracker_line := [7 \<mapsto> [2]],
                state_dicts := [Map.empty, [7 \<mapsto> False], Map.empty]\<rparr>) 7 2 (0, True))) 1
     = [''car'' \<mapsto> 0] \<and>
   in_counts (snd (update_line
     (two_lines\<lparr>tracker_line := [7 \<mapsto> [2]],
                state_dicts := [Map.empty, [7 \<mapsto> False], Map.empty]\<rparr>) 7 2 (0, True))) 0
     = [''car'' \<mapsto> 1] \<and>
   length (tracker_state_batch
     (two_lines\<lparr>tracker_line := [7 \<mapsto> [2]],
                state_dicts := [Map.empty, [7 \<mapsto> False], Map.empty]\<rparr>)) = 2"
proof -
  let ?t = "two_lines\<lparr>tracker_line := [7 \<mapsto> [2]],
                state_dicts := [Map.empty, [7 \<mapsto> False], Map.empty]\<rparr>"
  have sh: "same_shape two_lines ?t" by (simp add: same_shape_def two_lines_def)
  have old: "side_map ?t 1 = Map.empty" "in_counts ?t 1 = [''car'' \<mapsto> 0]"
    "out_counts ?t 1 = [''car'' \<mapsto> 0]"
    by (simp_all add: side_map_def in_counts_def out_counts_def two_lines_def)
  have cnt: "in_counts (snd (update_line ?t 7 2 (0, True))) 0 = [''car'' \<mapsto> 1]"
    by (simp add: update_line_def bump_def getitem_def in_counts_def two_lines_def)
  from line_independence [OF init_two_lines sh, of 0 1 7 2 True] init_two_lines sh old cnt
  show ?thesis by simp
qed

text \<open>
  C5. In every state \<open>t\<close> in which an observation can be processed (after any session and any
  observations of the current call), for every line \<open>i\<close> and every identity that is not in
  that line's side map: processing an observation of that identity raises nothing, records
  the side of the observation (the side test of its box centre against line \<open>i\<close>) for the
  identity in the line's side map, and leaves the line's \<open>in\<close> and \<open>out\<close> counts unchanged,
  whatever the side and whatever the class of the observation.
\<close>

theorem first_sighting:
  fixes t0 :: LineCounter and bs :: "detection list list" and ds :: "detection list"
    and box :: xyxy and cf :: real and c :: int and tid :: int
  defines "t \<equiv> during t0 bs ds"
  defines "t' \<equiv> snd (update_detection (during t0 bs ds) (box, cf, c, Some tid))"
  assumes init: "LineCounter_init start_pts end_pts cid names = Inr t0"
    and i: "i < length start_pts"
    and new: "side_map t i tid = None"
  shows "fst (update_detection t (box, cf, c, Some tid)) = None \<and>
    side_map t' i = (side_map t i)(tid \<mapsto> is_in (vector_batch t ! i) (mean_anchor box)) \<and>
    in_counts t' i = in_counts t i \<and> out_counts t' i = out_counts t i"
proof -
  note s = during_init [OF init, of bs ds, folded t_def]
  from s(1) have ids: "same_ids t" by (simp add: tracker_inv_def)
  from i s(3) have i': "i < nlines t" by simp
  have noflip: "\<not> is_flip t (box, cf, c, Some tid) j" if j: "j < nlines t" for j
  proof -
    from ids i' j have "dom (side_map t j) = dom (side_map t i)" by (simp add: same_ids_def)
    with new have "side_map t j tid = None" by auto
    then show ?thesis by simp
  qed
  then have cls: "(\<exists>j < nlines t. is_flip t (box, cf, c, Some tid) j) \<longrightarrow> countable_class t c"
    by blast
  note ok = update_detection_ok [OF s(1) cls]
  from ok(1) ok(2) [OF i'] ok(3) [OF i'] ok(4) [OF i'] new
  show ?thesis unfolding t'_def t_def [symmetric] by simp
qed

theorem first_sighting_witness:
  "LineCounter_init [Point 0 0] [Point 0 100] [2] [2 \<mapsto> ''car''] = Inr car_tracker \<and>
   (0::nat) < length [Point 0 0] \<and>
   side_map (during car_tracker [[((-6, 49, -4, 51), 0.9, 2, Some 7)]] []) 0 8 = None \<and>
   fst (update_detection (during car_tracker [[((-6, 49, -4, 51), 0.9, 2, Some 7)]] [])
          ((4, 49, 6, 51), 0.9, 5, Some 8)) = None \<and>
   side_map (snd (update_detection (during car_tracker [[((-6, 49, -4, 51), 0.9, 2, Some 7)]] [])
          ((4, 49, 6, 51), 0.9, 5, Some 8))) 0 = [7 \<mapsto> False, 8 \<mapsto> True] \<and>
   in_counts (snd (update_detection (during car_tracker [[((-6, 49, -4, 51), 0.9, 2, Some 7)]] [])
          ((4, 49, 6, 51), 0.9, 5, Some 8))) 0 = [''car'' \<mapsto> 0] \<and>
   out_counts (snd (update_detection (during car_tracker [[((-6, 49, -4, 51), 0.9, 2, Some 7)]] [])
          ((4, 49, 6, 51), 0.9, 5, Some 8))) 0 = [''car'' \<mapsto> 0]"
proof -
  let ?t = "during car_tracker [[((-6, 49, -4, 51), 0.9, 2, Some 7)]] []"
  have v: "side_map ?t 0 = [7 \<mapsto> False]" "in_counts ?t 0 = [''car'' \<mapsto> 0]"
    "out_counts ?t 0 = [''car'' \<mapsto> 0]"
    "is_in (vector_batch ?t ! 0) (mean_anchor (4, 49, 6, 51))"
    unfolding car_tracker_seen
    by (simp_all add: side_map_def in_counts_def out_counts_def is_in_def car_tracker_def)
  then have new: "side_map ?t 0 8 = None" by simp
  from first_sighting [where box = "(4, 49, 6, 51)" and cf = "0.9" and c = 5,
      OF init_car_tracker _ new] v
    init_car_tracker new
  show ?thesis by simp
qed








text \<open>
  C2 as stated (an observation whose class identifier is absent from the class registry makes
  \<open>update\<close> raise at once, also on the first sighting of its identity) does not hold:
  \<open>class_name_dict[class_id]\<close> is evaluated on lines 96 and 98 only, after a flip. The first
  observation of identity 7 with class 9, which is neither in \<open>class_id\<close> nor a key of
  \<open>class_name_dict\<close>, raises nothing, and its side is recorded.
\<close>

theorem unknown_class_counterexample:
  "class_name_dict car_tracker 9 = None \<and> 9 \<notin> set (class_id car_tracker) \<and>
   fst (update car_tracker [((4, 49, 6, 51), 0.9, 9, Some 7)]) = None \<and>
   side_map (snd (update car_tracker [((4, 49, 6, 51), 0.9, 9, Some 7)])) 0 7 = Some True"
  by (simp add: enumerate_def triggers_batch_def update_line_def getitem_def
      is_in_def side_map_def car_tracker_def)

text \<open>
  C2, amended. In every state \<open>t\<close> in which an observation can be processed, an observation
  with an identity raises \<open>KeyError\<close> exactly when it flips on some line and its class
  identifier does not resolve, through \<open>class_name_dict\<close>, to a class name that has counters;
  otherwise nothing is raised. So an unknown class is reported only at a flip, never on the
  first sighting of an identity nor while the identity stays on its side. Every identifier
  of \<open>class_id\<close> resolves to a name with counters, and no identifier missing from
  \<open>class_name_dict\<close> does.
\<close>

theorem unknown_class_error:
  fixes t0 :: LineCounter and bs :: "detection list list" and ds :: "detection list"
    and box :: xyxy and cf :: real and c :: int and tid :: int
  defines "t \<equiv> during t0 bs ds"
  assumes init: "LineCounter_init start_pts end_pts cid names = Inr t0"
  shows "fst (update_detection t (box, cf, c, Some tid)) =
      (if (\<exists>i < length start_pts. is_flip t (box, cf, c, Some tid) i) \<and> \<not> countable_class t c
       then Some KeyError else None) \<and>
    (c \<in> set cid \<longrightarrow> countable_class t c) \<and>
    (names c = None \<longrightarrow> \<not> countable_class t c)"
proof -
  let ?d = "(box, cf, c, Some tid)"
  let ?ps = "enumerate (triggers_batch t (mean_anchor box))"
  note st = during_init [OF init, of bs ds, folded t_def]
  from st(1) have wf: "wf_refs t" and ids: "same_ids t" and wc: "wf_counts t"
    by (simp_all add: tracker_inv_def)
  from st(5) wc have reg: "c \<in> set cid \<longrightarrow> countable_class t c" by (simp add: wf_counts_def)
  from st(4) have unk: "names c = None \<longrightarrow> \<not> countable_class t c"
    by (simp add: countable_class_def)
  note en = enumerate_triggers [where t = t and pt = "mean_anchor box"]
  have err: "fst (update_detection t ?d) =
      (if (\<exists>i < nlines t. is_flip t ?d i) \<and> \<not> countable_class t c
       then Some KeyError else None)"
  proof (cases "(\<exists>i < nlines t. is_flip t ?d i) \<and> \<not> countable_class t c")
    case False
    then have "(\<exists>i < nlines t. is_flip t ?d i) \<longrightarrow> countable_class t c" by blast
    from update_detection_ok(1) [OF st(1) this] False show ?thesis by simp
  next
    case True
    then obtain i where i: "i < nlines t" "is_flip t ?d i" and nc: "\<not> countable_class t c" by blast
    from i(2) have "side_map t i tid \<noteq> None" by (cases "side_map t i tid") simp_all
    then have "tid \<in> dom (side_map t i)" by (simp add: domIff)
    with ids i(1) have l: "tid \<in> dom (tracker_line t)" by (simp add: same_ids_def)
    have seen: "\<forall>p \<in> set ?ps. side_map t (fst p) tid \<noteq> None"
    proof
      fix p assume "p \<in> set ?ps"
      with en(3) have "fst p < nlines t" by blast
      with ids l have "tid \<in> dom (side_map t (fst p))" by (simp add: same_ids_def)
      then show "side_map t (fst p) tid \<noteq> None" by (simp add: domIff)
    qed
    from True have fl: "\<exists>p \<in> set ?ps. side_map t (fst p) tid = Some (\<not> snd p)"
      unfolding flip_exists_enumerate [where cf = cf and c = c] by blast
    have "fst (update_detection t ?d) = fst (update_lines t tid c ?ps)" by simp
    also from update_lines_unknown [OF wf wc en(3) seen nc] fl have "\<dots> = Some KeyError" by simp
    finally show ?thesis using True by simp
  qed
  from err reg unk show ?thesis unfolding st(3) by blast
qed

theorem unknown_class_error_witness:
  "LineCounter_init [Point 0 0] [Point 0 100] [2] [2 \<mapsto> ''car''] = Inr car_tracker \<and>
   is_flip (during car_tracker [[((-6, 49, -4, 51), 0.9, 2, Some 7)]] [])
     ((4, 49, 6, 51), 0.9, 9, Some 7) 0 \<and>
   [2 \<mapsto> ''car''] (9::int) = None \<and>
   fst (update_detection (during car_tracker [[((-6, 49, -4, 51), 0.9, 2, Some 7)]] [])
          ((4, 49, 6, 51), 0.9, 9, Some 7)) = Some KeyError \<and>
   fst (update_detection (during car_tracker [[((-6, 49, -4, 51), 0.9, 2, Some 7)]] [])
          ((-6, 49, -4, 51), 0.9, 9, Some 7)) = None"
proof -
  let ?t = "during car_tracker [[((-6, 49, -4, 51), 0.9, 2, Some 7)]] []"
  have v: "is_flip ?t ((4, 49, 6, 51), 0.9, 9, Some 7) 0"
    "\<not> is_flip ?t ((-6, 49, -4, 51), 0.9, 9, Some 7) 0"
    unfolding car_tracker_seen
    by (simp_all add: side_map_def is_in_def car_tracker_def)
  have n: "[2 \<mapsto> ''car''] (9::int) = None" by simp
  note a = unknown_class_error [where box = "(4, 49, 6, 51)" and cf = "0.9" and c = 9 and tid = 7
      and bs = "[[((-6, 49, -4, 51), 0.9, 2, Some 7)]]" and ds = "[]", OF init_car_tracker]
  note b = unknown_class_error [where box = "(-6, 49, -4, 51)" and cf = "0.9" and c = 9 and tid = 7
      and bs = "[[((-6, 49, -4, 51), 0.9, 2, Some 7)]]" and ds = "[]", OF init_car_tracker]
  from a v(1) n have "fst (update_detection ?t ((4, 49, 6, 51), 0.9, 9, Some 7)) = Some KeyError"
    by simp
  moreover from b v(2) have "fst (update_detection ?t ((-6, 49, -4, 51), 0.9, 9, Some 7)) = None"
    by simp
  ultimately show ?thesis using init_car_tracker v(1) n by simp
qed

text \<open>
  C3 as stated (when class resolution fails for one observation of a call, none of its
  side-state updates is committed and the remaining observations of the call are processed
  as if it were absent) does not hold: the \<open>KeyError\<close> of lines 96 and 98 is raised after
  line 92 has stored the new side, and nothing in \<open>update\<close> catches it, so it ends the call.
  Identity 7, of class 9, is recorded on the \<open>False\<close> side; a call in which it flips, followed
  by a valid observation of identity 8, raises, leaves identity 7 on the \<open>True\<close> side and never
  records identity 8.
\<close>

theorem failing_observation_counterexample:
  "side_map (run car_tracker [[((-6, 49, -4, 51), 0.9, 9, Some 7)]]) 0 7 = Some False \<and>
   fst (update (run car_tracker [[((-6, 49, -4, 51), 0.9, 9, Some 7)]])
     [((4, 49, 6, 51), 0.9, 9, Some 7), ((4, 49, 6, 51), 0.9, 2, Some 8)]) = Some KeyError \<and>
   side_map (snd (update (run car_tracker [[((-6, 49, -4, 51), 0.9, 9, Some 7)]])
     [((4, 49, 6, 51), 0.9, 9, Some 7), ((4, 49, 6, 51), 0.9, 2, Some 8)])) 0 7 = Some True \<and>
   side_map (snd (update (run car_tracker [[((-6, 49, -4, 51), 0.9, 9, Some 7)]])
     [((4, 49, 6, 51), 0.9, 9, Some 7), ((4, 49, 6, 51), 0.9, 2, Some 8)])) 0 8 = None"
  by (simp add: enumerate_def triggers_batch_def update_line_def bump_def getitem_def
      is_in_def side_map_def car_tracker_def)

text \<open>
  C3, amended. When, in an \<open>update\<close> call of a session, the observations \<open>ds\<close> are processed
  without exception and the next observation raises, the call ends with that exception in
  the state that the failing observation left, whatever observations \<open>ds'\<close> follow it: they
  are not processed. What the failing observation wrote before the exception stays: on a
  line on which it flipped, the side map holds its new side.
\<close>

theorem update_stops_at_failure:
  fixes t0 :: LineCounter and bs :: "detection list list" and ds ds' :: "detection list"
    and box :: xyxy and cf :: real and c :: int and tid :: int
  defines "t \<equiv> during t0 bs ds"
  assumes init: "LineCounter_init start_pts end_pts cid names = Inr t0"
    and before: "fst (update (run t0 bs) ds) = None"
    and fail: "fst (update_detection t (box, cf, c, Some tid)) = Some e"
  shows "update (run t0 bs) (ds @ (box, cf, c, Some tid) # ds') =
      (Some e, snd (update_detection t (box, cf, c, Some tid))) \<and>
    (\<exists>i < length start_pts. is_flip t (box, cf, c, Some tid) i \<and>
       side_map (snd (update (run t0 bs) (ds @ (box, cf, c, Some tid) # ds'))) i tid =
         Some (is_in (vector_batch t ! i) (mean_anchor box)))"
proof -
  let ?d = "(box, cf, c, Some tid)"
  note st = during_init [OF init, of bs ds, folded t_def]
  from st(1) have wf: "wf_refs t" by (simp add: tracker_inv_def)
  from fail obtain t' where ud: "update_detection t ?d = (Some e, t')"
    by (cases "update_detection t ?d") (simp only: fst_conv)
  then have t': "snd (update_detection t ?d) = t'" by (simp only: snd_conv)
  from during_step [OF before, of ?d ds', folded t_def, unfolded ud]
  have u: "update (run t0 bs) (ds @ ?d # ds') = (Some e, t')" by simp
  from update_detection_error_state [OF wf fail]
  have "\<exists>i < length start_pts. is_flip t ?d i \<and>
       side_map t' i tid = Some (is_in (vector_batch t ! i) (mean_anchor box))"
    unfolding st(3) t' .
  with u show ?thesis unfolding t' by simp
qed

theorem update_stops_at_failure_witness:
  "LineCounter_init [Point 0 0] [Point 0 100] [2] [2 \<mapsto> ''car''] = Inr car_tracker \<and>
   fst (update (run car_tracker [[((-6, 49, -4, 51), 0.9, 2, Some 7)]]) []) = None \<and>
   fst (update_detection (during car_tracker [[((-6, 49, -4, 51), 0.9, 2, Some 7)]] [])
     ((4, 49, 6, 51), 0.9, 9, Some 7)) = Some KeyError \<and>
   update (run car_tracker [[((-6, 49, -4, 51), 0.9, 2, Some 7)]])
     ([] @ ((4, 49, 6, 51), 0.9, 9, Some 7) # [((4, 49, 6, 51), 0.9, 2, Some 8)]) =
     (Some KeyError,
      car_tracker\<lparr>tracker_line := [7 \<mapsto> [2, 0]], state_dicts := [Map.empty, [7 \<mapsto> True]]\<rparr>)"
proof -
  let ?t = "during car_tracker [[((-6, 49, -4, 51), 0.9, 2, Some 7)]] []"
  have b: "fst (update (run car_tracker [[((-6, 49, -4, 51), 0.9, 2, Some 7)]]) []) = None"
    by simp
  have f: "update_detection ?t ((4, 49, 6, 51), 0.9, 9, Some 7) =
    (Some KeyError,
     car_tracker\<lparr>tracker_line := [7 \<mapsto> [2, 0]], state_dicts := [Map.empty, [7 \<mapsto> True]]\<rparr>)"
    unfolding car_tracker_seen
    by (simp add: enumerate_def triggers_batch_def update_line_def bump_def getitem_def
      is_in_def car_tracker_def)
  then have f1: "fst (update_detection ?t ((4, 49, 6, 51), 0.9, 9, Some 7)) = Some KeyError"
    by simp
  from update_stops_at_failure [where ds' = "[((4, 49, 6, 51), 0.9, 2, Some 8)]",
      OF init_car_tracker b f1] init_car_tracker b f
  show ?thesis by simp
qed

end
